theory Spec2Isabelle
  imports Main
begin

section \<open>License discovery of grayskull: a shallow embedding of \<open>grayskull/license/discovery.py\<close>\<close>

text \<open>
  Python strings are modelled as \<open>string\<close> (lists of 8-bit characters) holding ASCII text;
  \<open>Optional[str]\<close> is \<open>string option\<close>. Exceptions are values of \<open>py_error\<close> and a function
  that may raise returns \<open>py_error + 'a\<close> (\<open>Inl\<close> the exception). The external collaborators
  (the similarity scorer of fuzzywuzzy, the license corpus, the OSI API client, the HTTP
  client, the git binary) are fields of an environment record, and what the module
  changes (the disk, the requests sent, the cache) is a world record that the functions
  take and return. Functions keep the names of the source, the private ones without their
  leading underscore; \<open>default\<close> is written \<open>dflt\<close>. Paths follow \<open>posixpath\<close>.
\<close>

subsection \<open>Exceptions and Python values\<close>

datatype py_error =
    FileNotFoundError
  | IsADirectoryError
  | FileExistsError
  | TypeError
  | ValueError
  | IndexError
  | KeyError
  | AttributeError
  | OtherError string

text \<open>A Python value as \<open>response.json()\<close> produces it; \<open>PNone\<close> is \<open>None\<close> (JSON null).\<close>

datatype pyval =
    PNone
  | PBool bool
  | PInt int
  | PStr string
  | PList "pyval list"
  | PDict "(string \<times> pyval) list"

definition of_optional :: "string option \<Rightarrow> pyval" where
  "of_optional v = (case v of None \<Rightarrow> PNone | Some s \<Rightarrow> PStr s)"

text \<open>Truthiness of an \<open>Optional[str]\<close>, as \<open>if default\<close> and \<open>if version\<close> test it:
  \<open>None\<close> and the empty string are false.\<close>

definition truthy :: "string option \<Rightarrow> bool" where
  "truthy v = (case v of None \<Rightarrow> False | Some s \<Rightarrow> s \<noteq> [])"

subsection \<open>String primitives\<close>

definition NL :: char where
  "NL = CHR 0x0A"


text \<open>ASCII white space, the characters \<open>str.strip()\<close> removes and \<open>\s\<close> matches:
  TAB, LF, VT, FF, CR, FS, GS, RS, US and the space.\<close>

definition is_space :: "char \<Rightarrow> bool" where
  "is_space c = (c \<in> set [CHR 0x09, CHR 0x0A, CHR 0x0B, CHR 0x0C, CHR 0x0D,
                            CHR 0x1C, CHR 0x1D, CHR 0x1E, CHR 0x1F, CHR 0x20])"

text \<open>ASCII word characters, what \<open>\w\<close> matches: letters, digits and the underscore.\<close>

definition is_word_char :: "char \<Rightarrow> bool" where
  "is_word_char c =
     (c \<in> set (''abcdefghijklmnopqrstuvwxyz'' @ ''ABCDEFGHIJKLMNOPQRSTUVWXYZ'' @ ''0123456789_''))"

text \<open>\<open>str.lower()\<close> on ASCII.\<close>

definition lower_char :: "char \<Rightarrow> char" where
  "lower_char c =
     (case map_of (zip ''ABCDEFGHIJKLMNOPQRSTUVWXYZ'' ''abcdefghijklmnopqrstuvwxyz'') c of
        None \<Rightarrow> c
      | Some l \<Rightarrow> l)"

definition lower :: "string \<Rightarrow> string" where
  "lower s = map lower_char s"

text \<open>\<open>str.strip()\<close>.\<close>

definition strip :: "string \<Rightarrow> string" where
  "strip s = rev (dropWhile is_space (rev (dropWhile is_space s)))"

text \<open>\<open>s.startswith(p)\<close> and \<open>s.endswith(p)\<close>.\<close>

definition startswith :: "string \<Rightarrow> string \<Rightarrow> bool" where
  "startswith s p = (take (length p) s = p)"

definition endswith :: "string \<Rightarrow> string \<Rightarrow> bool" where
  "endswith s p = (length p \<le> length s \<and> drop (length s - length p) s = p)"

text \<open>\<open>s.split(c)\<close> for a one-character separator: never the empty list.\<close>

fun split_sep :: "char \<Rightarrow> string \<Rightarrow> string list" where
  "split_sep c [] = [[]]"
| "split_sep c (x # xs) =
     (if x = c then [] # split_sep c xs
      else (case split_sep c xs of
              [] \<Rightarrow> [[x]]
            | w # ws \<Rightarrow> (x # w) # ws))"



subsection \<open>The file-name pattern of \<open>search_license_folder\<close>\<close>

text \<open>
  \<^verbatim>\<open>re.compile(r"(\bcopyright\b|\blicense[s]*\b|\bcopying\b|\bcopyleft\b)", re.IGNORECASE)\<close>
  applied with \<open>match\<close>, which anchors at the start of the name. The matcher below walks the
  pattern as the backtracking engine does: \<open>\b\<close> compares the characters on both sides of
  the current position, a literal is compared case-insensitively, and \<open>[s]*\<close> yields every
  number of repetitions, longest first.
\<close>

definition word_boundary :: "char option \<Rightarrow> string \<Rightarrow> bool" where
  "word_boundary prev rest =
     ((case prev of None \<Rightarrow> False | Some c \<Rightarrow> is_word_char c)
      \<noteq> (case rest of [] \<Rightarrow> False | c # _ \<Rightarrow> is_word_char c))"

text \<open>A lower-case literal under IGNORECASE: the rest of the subject and the last character
  consumed, or \<open>None\<close>.\<close>

definition match_literal :: "string \<Rightarrow> char option \<Rightarrow> string \<Rightarrow> (char option \<times> string) option" where
  "match_literal kw prev s =
     (if length kw \<le> length s \<and> lower (take (length kw) s) = kw
      then Some (if kw = [] then prev else Some (last (take (length kw) s)), drop (length kw) s)
      else None)"

fun match_star_s :: "char option \<Rightarrow> string \<Rightarrow> (char option \<times> string) list" where
  "match_star_s prev [] = [(prev, [])]"
| "match_star_s prev (c # cs) =
     (if lower_char c = CHR ''s'' then match_star_s (Some c) cs @ [(prev, c # cs)]
      else [(prev, c # cs)])"

text \<open>\<open>\bKW\b\<close> at the start of the subject.\<close>

definition match_word :: "string \<Rightarrow> string \<Rightarrow> bool" where
  "match_word kw s =
     (word_boundary None s \<and>
      (case match_literal kw None s of
         None \<Rightarrow> False
       | Some (prev, rest) \<Rightarrow> word_boundary prev rest))"

text \<open>\<open>\blicense[s]*\b\<close> at the start of the subject.\<close>

definition match_licenses :: "string \<Rightarrow> bool" where
  "match_licenses s =
     (word_boundary None s \<and>
      (case match_literal ''license'' None s of
         None \<Rightarrow> False
       | Some (prev, rest) \<Rightarrow> list_ex (\<lambda>(p, r). word_boundary p r) (match_star_s prev rest)))"

definition re_search_match :: "string \<Rightarrow> bool" where
  "re_search_match one_file =
     (match_word ''copyright'' one_file \<or> match_licenses one_file
      \<or> match_word ''copying'' one_file \<or> match_word ''copyleft'' one_file)"

subsection \<open>Regular-expression substitutions\<close>

text \<open>
  \<^verbatim>\<open>re.sub(r"\s*License\s*", "", string, count, flags)\<close>. The signature of \<open>re.sub\<close> is
  \<open>sub(pattern, repl, string, count=0, flags=0)\<close>: the fourth positional argument is the
  maximal number of replacements (0 for all of them), the fifth the flags; the flag
  \<open>re.IGNORECASE\<close> is the integer 2.

  At a position of the subject the pattern matches iff the word follows the white space
  that starts there (a shorter run of white space leaves a white-space character where the
  \<open>L\<close> is expected), and the match then takes all the white space after the word.
\<close>

definition re_IGNORECASE :: nat where
  "re_IGNORECASE = 2"

definition match_License_at :: "bool \<Rightarrow> string \<Rightarrow> string option" where
  "match_License_at ignorecase s =
     (let s1 = dropWhile is_space s; w = take 7 s1
      in if (if ignorecase then lower w = ''license'' else w = ''License'')
         then Some (dropWhile is_space (drop 7 s1))
         else None)"

text \<open>The scan of \<open>re.sub\<close>: \<open>limit\<close> is the number of replacements still allowed,
  \<open>None\<close> when they are not limited.\<close>

function sub_License_scan :: "bool \<Rightarrow> nat option \<Rightarrow> string \<Rightarrow> string" where
  "sub_License_scan ic limit [] = []"
| "sub_License_scan ic limit (c # cs) =
     (if limit = Some 0 then c # cs
      else (case match_License_at ic (c # cs) of
              Some rest \<Rightarrow> sub_License_scan ic (map_option (\<lambda>n. n - 1) limit) rest
            | None \<Rightarrow> c # sub_License_scan ic limit cs))"
  by pat_completeness auto
termination
proof (relation "measure (\<lambda>(ic, limit, s). length s)")
  show "wf (measure (\<lambda>(ic, limit, s). length s))"
    by simp
next
  fix ic :: bool and limit :: "nat option" and c :: char and cs rest :: string
  assume m: "match_License_at ic (c # cs) = Some rest"
  let ?s1 = "dropWhile is_space (c # cs)"
  from m have r: "rest = dropWhile is_space (drop 7 ?s1)"
    by (simp add: match_License_at_def Let_def split: if_splits)
  from m have "length (take 7 ?s1) = 7"
    by (auto simp: match_License_at_def Let_def lower_def split: if_splits
             dest: arg_cong [where f = length])
  then have "7 \<le> length ?s1"
    by simp
  moreover have "length rest \<le> length (drop 7 ?s1)"
    unfolding r by (rule length_dropWhile_le)
  moreover have "length ?s1 \<le> length (c # cs)"
    by (rule length_dropWhile_le)
  ultimately have "length rest < length (c # cs)"
    by simp
  then show "((ic, map_option (\<lambda>n. n - 1) limit, rest), ic, limit, c # cs)
               \<in> measure (\<lambda>(ic, limit, s). length s)"
    by simp
next
  fix ic :: bool and limit :: "nat option" and c :: char and cs :: string
  show "((ic, limit, cs), ic, limit, c # cs) \<in> measure (\<lambda>(ic, limit, s). length s)"
    by simp
qed

definition re_sub_License :: "string \<Rightarrow> nat \<Rightarrow> nat \<Rightarrow> string" where
  "re_sub_License string count flags =
     sub_License_scan (flags = re_IGNORECASE) (if count = 0 then None else Some count) string"

text \<open>
  \<^verbatim>\<open>re.sub(r"github.com", "api.github.com/repos", github_url)\<close>: the dot of the pattern
  matches any character but a newline, every occurrence is replaced, and the scan goes on
  after the text matched.
\<close>

definition match_github_com :: "string \<Rightarrow> bool" where
  "match_github_com s =
     (take 6 s = ''github'' \<and> take 3 (drop 7 s) = ''com''
      \<and> (case drop 6 s of [] \<Rightarrow> False | d # _ \<Rightarrow> d \<noteq> NL))"

fun re_sub_github :: "string \<Rightarrow> string" where
  "re_sub_github [] = []"
| "re_sub_github (c # cs) =
     (if match_github_com (c # cs) then ''api.github.com/repos'' @ re_sub_github (drop 9 cs)
      else c # re_sub_github cs)"

text \<open>
  \<^verbatim>\<open>re.sub(r"/$", ".git", git_url)\<close>: without \<open>re.MULTILINE\<close> the \<open>$\<close> matches at the
  end of the subject and before a newline that ends it.
\<close>

fun re_sub_slash_end :: "string \<Rightarrow> string" where
  "re_sub_slash_end [] = []"
| "re_sub_slash_end (c # cs) =
     (if c = CHR ''/'' \<and> (cs = [] \<or> cs = [NL]) then ''.git'' @ re_sub_slash_end cs
      else c # re_sub_slash_end cs)"

subsection \<open>Approximate matching\<close>

text \<open>
  \<open>process.extractOne(query, choices, scorer=token_sort_ratio)\<close> of fuzzywuzzy scores every
  choice against the query and returns \<open>max(scored, key=lambda i: i[1])\<close>, or \<open>None\<close> when
  there is no choice. The score of a pair is a number from 0 to 100 and is a parameter
  here; the cut-off of \<open>extractOne\<close> is 0, so no choice is dropped. Python's \<open>max\<close> keeps the
  first of several maximal items.
\<close>

fun py_max :: "('a \<times> nat) list \<Rightarrow> ('a \<times> nat) option" where
  "py_max [] = None"
| "py_max (x # xs) = Some (foldl (\<lambda>best y. if snd best < snd y then y else best) x xs)"

definition extractOne :: "(string \<Rightarrow> string \<Rightarrow> nat) \<Rightarrow> string \<Rightarrow> string list \<Rightarrow> (string \<times> nat) option" where
  "extractOne score query choices = py_max (map (\<lambda>c. (c, score query c)) choices)"

text \<open>\<open>xs.index(x)\<close>: the first position of \<open>x\<close>, \<open>ValueError\<close> when there is none.\<close>

fun py_index :: "'a list \<Rightarrow> 'a \<Rightarrow> py_error + nat" where
  "py_index [] x = Inl ValueError"
| "py_index (y # ys) x =
     (if y = x then Inr 0
      else (case py_index ys x of Inl err \<Rightarrow> Inl err | Inr i \<Rightarrow> Inr (Suc i)))"

subsection \<open>Data and environment\<close>

text \<open>The dataclass \<open>ShortLicense\<close>. Its \<open>name\<close> holds whatever the producer puts there:
  a string, \<open>None\<close>, or the value found under \<open>spdx_id\<close> in a response of the host.\<close>

record ShortLicense =
  name :: pyval
  path :: string
  is_packaged :: bool

text \<open>A \<open>License\<close> record of the OSI client: \<open>other_names\<close> holds the \<open>"name"\<close> of every
  entry of the attribute, \<open>identifiers\<close> the pairs of \<open>"scheme"\<close> and \<open>"identifier"\<close>.\<close>

record License =
  license_name :: string
  license_id :: string
  other_names :: "string list"
  identifiers :: "(string \<times> string) list"

text \<open>A response of \<open>requests.get\<close>: the status code and what \<open>response.json()\<close> gives.\<close>

record response =
  status_code :: nat
  json :: "py_error + pyval"

text \<open>A file-system entry below a directory: a file with its text, or a sub-directory with
  its entries in the order \<open>os.scandir\<close> lists them.\<close>

datatype entry =
    File string string
  | Dir string "entry list"

text \<open>
  What the module reaches outside itself:
  \<^item> \<open>token_sort_score query choice\<close>: the score \<open>extractOne\<close> computes with \<open>token_sort_ratio\<close>;
  \<^item> \<open>get_all_licenses\<close>: the corpus of \<open>grayskull.license.data\<close>, pairs of identifier and text;
  \<^item> \<open>os_api_get\<close>, \<open>os_api_all\<close>: \<open>OpenSourceAPI().get\<close> (\<open>None\<close> for its \<open>ValueError\<close>) and \<open>.all()\<close>;
  \<^item> \<open>requests_get\<close>: the answer of the network to a GET of a URL, or the exception raised;
  \<^item> \<open>b64decode_utf8\<close>: \<open>base64.b64decode(s).decode("utf-8")\<close> on a string;
  \<^item> \<open>run_git\<close>: the outcome of the git command line: the exception \<open>check_output\<close> raises,
    or the entries the clone puts into the destination;
  \<^item> \<open>gettempdir\<close>: the directory of temporary files;
  \<^item> \<open>cwd_below_root\<close>: the working directory, as the text after the slash that starts it.
\<close>

record env =
  token_sort_score :: "string \<Rightarrow> string \<Rightarrow> nat"
  get_all_licenses :: "(string \<times> string) list"
  os_api_get :: "string \<Rightarrow> License option"
  os_api_all :: "License list"
  requests_get :: "string \<Rightarrow> py_error + response"
  b64decode_utf8 :: "string \<Rightarrow> py_error + string"
  run_git :: "string list \<Rightarrow> py_error + entry list"
  gettempdir :: string
  cwd_below_root :: string


text \<open>
  The mutable world: the directory trees on disk, each under the path of its root (a path
  is a directory of the world when it is one of these roots); the candidate names
  \<open>mkdtemp\<close> will draw; the URLs requested so far, oldest first; and the entries of the
  \<open>lru_cache\<close> of \<open>search_license_api_github\<close>, most recently used first.

  The key of an entry is the call as it is written, as \<open>functools.lru_cache\<close> builds it
  from \<open>*args\<close> and \<open>**kwds\<close>: the values of the positional arguments in order, then the
  keyword arguments, name and value, in order. The defaults of the parameters left out are
  not part of it: \<open>f(u)\<close>, \<open>f(u, None)\<close> and \<open>f(u, version=None)\<close> have three different keys.
\<close>

type_synonym cache_key = "string option list \<times> (string \<times> string option) list"

record world =
  roots :: "(string \<times> entry list) list"
  tmp_names :: "string list"
  requests_log :: "string list"
  lru :: "(cache_key \<times> ShortLicense option) list"

subsection \<open>Name resolver\<close>




text \<open>The name \<open>match_license\<close> looks up: lines 30 and 31 of the source. The flag
  \<open>re.IGNORECASE\<close> stands where \<open>re.sub\<close> expects \<open>count\<close>, and no flag is passed.\<close>

definition match_license_name :: "string \<Rightarrow> string" where
  "match_license_name nm = re_sub_License (strip nm) re_IGNORECASE 0"



subsection \<open>URLs and the git command\<close>

text \<open>\<open>_get_api_github_url\<close>; \<open>github_url[-1]\<close> raises \<open>IndexError\<close> on the empty string.\<close>

definition get_api_github_url :: "string \<Rightarrow> string option \<Rightarrow> py_error + string" where
  "get_api_github_url github_url version =
     (let url1 = re_sub_github github_url
      in if url1 = [] then Inl IndexError
         else let url2 = (if last url1 \<noteq> CHR ''/'' then url1 @ ''/'' else url1);
                  url3 = url2 @ ''license''
              in Inr (case version of
                        None \<Rightarrow> url3
                      | Some v \<Rightarrow> if v \<noteq> [] then url3 @ ''?ref='' @ v else url3))"

text \<open>The first two statements of \<open>search_license_repo\<close>: the URL handed to git.\<close>

definition clone_url :: "string \<Rightarrow> string" where
  "clone_url git_url =
     (let u = re_sub_slash_end git_url
      in if endswith u ''.git'' then u else u @ ''.git'')"

text \<open>\<open>_get_git_cmd\<close>.\<close>

definition get_git_cmd :: "string \<Rightarrow> string option \<Rightarrow> string \<Rightarrow> string list" where
  "get_git_cmd git_url version dest =
     [''git'', ''clone'']
     @ (case version of None \<Rightarrow> [] | Some v \<Rightarrow> if v \<noteq> [] then [''-b'', v] else [])
     @ [git_url, dest]"

subsection \<open>Paths and the file system\<close>

text \<open>\<open>os.path.join(a, b)\<close> of \<open>posixpath\<close>.\<close>

definition path_join :: "string \<Rightarrow> string \<Rightarrow> string" where
  "path_join a b =
     (if startswith b ''/'' then b
      else if a = [] \<or> endswith a ''/'' then a @ b
      else a @ ''/'' @ b)"






text \<open>
  \<open>os.walk(top)\<close>, top-down: the triple of a directory (its path, the names of its
  sub-directories, the names of its files), then the walk of every sub-directory in turn.
  A path that is not a directory of the world yields nothing.
\<close>

fun entry_name :: "entry \<Rightarrow> string" where
  "entry_name (File n c) = n"
| "entry_name (Dir n es) = n"

fun is_dir :: "entry \<Rightarrow> bool" where
  "is_dir (File n c) = False"
| "is_dir (Dir n es) = True"

fun walk_dir :: "string \<Rightarrow> entry list \<Rightarrow> (string \<times> string list \<times> string list) list"
  and walk_subdirs :: "string \<Rightarrow> entry list \<Rightarrow> (string \<times> string list \<times> string list) list"
where
  "walk_dir topdir es =
     (topdir, map entry_name (filter is_dir es), map entry_name (filter (\<lambda>x. \<not> is_dir x) es))
     # walk_subdirs topdir es"
| "walk_subdirs topdir [] = []"
| "walk_subdirs topdir (File n c # es) = walk_subdirs topdir es"
| "walk_subdirs topdir (Dir n sub # es) = walk_dir (path_join topdir n) sub @ walk_subdirs topdir es"

definition os_walk :: "world \<Rightarrow> string \<Rightarrow> (string \<times> string list \<times> string list) list" where
  "os_walk w topdir = (case map_of (roots w) topdir of None \<Rightarrow> [] | Some es \<Rightarrow> walk_dir topdir es)"

text \<open>Every file below a directory, with its path as \<open>os.walk\<close> and \<open>os.path.join\<close> build it.\<close>

fun files_below :: "string \<Rightarrow> entry list \<Rightarrow> (string \<times> string) list" where
  "files_below topdir [] = []"
| "files_below topdir (File n c # es) = (path_join topdir n, c) # files_below topdir es"
| "files_below topdir (Dir n sub # es) = files_below (path_join topdir n) sub @ files_below topdir es"

text \<open>Every directory below a directory, with its path.\<close>

fun dirs_below :: "string \<Rightarrow> entry list \<Rightarrow> string list" where
  "dirs_below topdir [] = []"
| "dirs_below topdir (File n c # es) = dirs_below topdir es"
| "dirs_below topdir (Dir n sub # es) =
     path_join topdir n # dirs_below (path_join topdir n) sub @ dirs_below topdir es"

text \<open>\<open>open(p, "r").read()\<close>: the text of a file, \<open>IsADirectoryError\<close> for a directory,
  \<open>FileNotFoundError\<close> for a path that is neither.\<close>

definition open_read :: "world \<Rightarrow> string \<Rightarrow> py_error + string" where
  "open_read w p =
     (case map_of (concat (map (\<lambda>(topdir, es). files_below topdir es) (roots w))) p of
        Some c \<Rightarrow> Inr c
      | None \<Rightarrow>
          if p \<in> set (concat (map (\<lambda>(topdir, es). topdir # dirs_below topdir es) (roots w)))
          then Inl IsADirectoryError
          else Inl FileNotFoundError)"

text \<open>\<open>open(path_join d n, "w").write(c)\<close> for a directory \<open>d\<close> of the world: the file
  replaces an entry of that name or is added after the others.\<close>

definition open_write :: "world \<Rightarrow> string \<Rightarrow> string \<Rightarrow> string \<Rightarrow> py_error + world" where
  "open_write w d n c =
     (case map_of (roots w) d of
        None \<Rightarrow> Inl FileNotFoundError
      | Some es \<Rightarrow>
          Inr (w\<lparr>roots := map (\<lambda>(topdir, es'). if topdir = d
                                    then (topdir, filter (\<lambda>x. entry_name x \<noteq> n) es' @ [File n c])
                                    else (topdir, es')) (roots w)\<rparr>))"

text \<open>
  \<open>tempfile.mkdtemp(prefix=...)\<close>: the candidate names are tried in turn until \<open>mkdir\<close>
  succeeds on a path that does not exist yet; when the candidates run out the call raises
  \<open>FileExistsError\<close>. The new directory is empty.
\<close>

definition mkdtemp :: "env \<Rightarrow> string \<Rightarrow> world \<Rightarrow> (py_error + string) \<times> world" where
  "mkdtemp e pfx w =
     (case dropWhile (\<lambda>n. path_join (gettempdir e) (pfx @ n) \<in> fst ` set (roots w)) (tmp_names w) of
        [] \<Rightarrow> (Inl FileExistsError, w\<lparr>tmp_names := []\<rparr>)
      | n # ns \<Rightarrow>
          (let d = path_join (gettempdir e) (pfx @ n)
           in (Inr d, w\<lparr>roots := roots w @ [(d, [])], tmp_names := ns\<rparr>)))"

text \<open>
  \<open>subprocess.check_output(cmd)\<close> for a git clone: the destination is the last word of the
  command. A clone that fails leaves the destination as it was (git removes what it
  created, not a directory that was there before).
\<close>

definition check_output :: "env \<Rightarrow> string list \<Rightarrow> world \<Rightarrow> (py_error + unit) \<times> world" where
  "check_output e cmd w =
     (case run_git e cmd of
        Inl err \<Rightarrow> (Inl err, w)
      | Inr es \<Rightarrow>
          (Inr (), w\<lparr>roots := map (\<lambda>(topdir, es'). if topdir = last cmd then (topdir, es) else (topdir, es'))
                                  (roots w)\<rparr>))"

subsection \<open>Text classifier\<close>

text \<open>\<open>get_license_type\<close>. With an empty corpus \<open>extractOne\<close> returns \<open>None\<close> and the
  subscript of \<open>best_match\<close> raises \<open>TypeError\<close>, in the test of line 183 or in line 185.\<close>

definition get_license_type :: "env \<Rightarrow> world \<Rightarrow> string \<Rightarrow> string option \<Rightarrow> py_error + string option" where
  "get_license_type e w path_license dflt =
     (case open_read w path_license of
        Inl err \<Rightarrow> Inl err
      | Inr license_content \<Rightarrow>
          (let all_licenses = get_all_licenses e;
               licenses_text = map snd all_licenses
           in case extractOne (token_sort_score e) license_content licenses_text of
                None \<Rightarrow> Inl TypeError
              | Some best_match \<Rightarrow>
                  if truthy dflt \<and> snd best_match < 76 then Inr dflt
                  else (case py_index licenses_text (fst best_match) of
                          Inl err \<Rightarrow> Inl err
                        | Inr index_license \<Rightarrow>
                            if index_license < length all_licenses
                            then Inr (Some (fst (all_licenses ! index_license)))
                            else Inl IndexError)))"

subsection \<open>Local folder scanner\<close>

text \<open>The pairs of folder and file name in the order the two loops of
  \<open>search_license_folder\<close> meet them.\<close>

definition walk_files :: "(string \<times> string list \<times> string list) list \<Rightarrow> (string \<times> string) list" where
  "walk_files triples =
     concat (map (\<lambda>(folder_path, dirnames, filenames). map (Pair folder_path) filenames) triples)"

definition search_license_folder :: "env \<Rightarrow> world \<Rightarrow> string \<Rightarrow> string option \<Rightarrow> py_error + ShortLicense option" where
  "search_license_folder e w p dflt =
     (case find (\<lambda>(folder_path, one_file). re_search_match one_file) (walk_files (os_walk w p)) of
        None \<Rightarrow> Inr None
      | Some (folder_path, one_file) \<Rightarrow>
          (let lc_path = path_join folder_path one_file
           in case get_license_type e w lc_path dflt of
                Inl err \<Rightarrow> Inl err
              | Inr nm \<Rightarrow> Inr (Some \<lparr>name = of_optional nm, path = lc_path, is_packaged = False\<rparr>)))"

subsection \<open>Repository clone fallback\<close>

definition search_license_repo ::
  "env \<Rightarrow> world \<Rightarrow> string \<Rightarrow> string option \<Rightarrow> string option \<Rightarrow> (py_error + ShortLicense option) \<times> world" where
  "search_license_repo e w git_url version dflt =
     (let git_url1 = clone_url git_url
      in case mkdtemp e ''gs-clone-repo-'' w of
           (Inl err, w1) \<Rightarrow> (Inl err, w1)
         | (Inr tmp_dir, w1) \<Rightarrow>
             (case check_output e (get_git_cmd git_url1 version tmp_dir) w1 of
                (Inl err, w2) \<Rightarrow> (Inr None, w2)
              | (Inr u, w2) \<Rightarrow> (search_license_folder e w2 tmp_dir dflt, w2)))"

subsection \<open>Remote host API client\<close>

text \<open>\<open>d[key]\<close> and \<open>d.get(key, default)\<close> on a Python value: only a dictionary has them.\<close>

definition py_getitem :: "pyval \<Rightarrow> string \<Rightarrow> py_error + pyval" where
  "py_getitem v key =
     (case v of
        PDict kvs \<Rightarrow> (case map_of kvs key of None \<Rightarrow> Inl KeyError | Some x \<Rightarrow> Inr x)
      | _ \<Rightarrow> Inl TypeError)"

definition py_get :: "pyval \<Rightarrow> string \<Rightarrow> pyval \<Rightarrow> py_error + pyval" where
  "py_get v key dflt =
     (case v of
        PDict kvs \<Rightarrow> Inr (case map_of kvs key of None \<Rightarrow> dflt | Some x \<Rightarrow> x)
      | _ \<Rightarrow> Inl AttributeError)"

text \<open>\<open>base64.b64decode(v).decode("utf-8")\<close>: a value that is no string is a \<open>TypeError\<close>.\<close>

definition decode_content :: "env \<Rightarrow> pyval \<Rightarrow> py_error + string" where
  "decode_content e v = (case v of PStr s \<Rightarrow> b64decode_utf8 e s | _ \<Rightarrow> Inl TypeError)"

text \<open>The body of \<open>search_license_api_github\<close>, the function under the decorator.\<close>

definition search_license_api_github_wrapped ::
  "env \<Rightarrow> world \<Rightarrow> string \<Rightarrow> string option \<Rightarrow> string option \<Rightarrow> (py_error + ShortLicense option) \<times> world" where
  "search_license_api_github_wrapped e w github_url version dflt =
     (case get_api_github_url github_url version of
        Inl err \<Rightarrow> (Inl err, w)
      | Inr api_url \<Rightarrow>
          (let w1 = w\<lparr>requests_log := requests_log w @ [api_url]\<rparr>
           in case requests_get e api_url of
                Inl err \<Rightarrow> (Inl err, w1)
              | Inr resp \<Rightarrow>
                  if status_code resp \<noteq> 200 then (Inr None, w1)
                  else (case json resp of
                     Inl err \<Rightarrow> (Inl err, w1)
                   | Inr json_content \<Rightarrow>
                  (case py_getitem json_content ''content'' of
                     Inl err \<Rightarrow> (Inl err, w1)
                   | Inr content \<Rightarrow>
                  (case decode_content e content of
                     Inl err \<Rightarrow> (Inl err, w1)
                   | Inr license_content \<Rightarrow>
                  (case mkdtemp e ''github-license-'' w1 of
                     (Inl err, w2) \<Rightarrow> (Inl err, w2)
                   | (Inr tmp_dir, w2) \<Rightarrow>
                  (case open_write w2 tmp_dir ''LICENSE'' license_content of
                     Inl err \<Rightarrow> (Inl err, w2)
                   | Inr w3 \<Rightarrow>
                  (case py_get json_content ''license'' (PDict []) of
                     Inl err \<Rightarrow> (Inl err, w3)
                   | Inr license_obj \<Rightarrow>
                  (case py_get license_obj ''spdx_id'' (of_optional dflt) of
                     Inl err \<Rightarrow> (Inl err, w3)
                   | Inr spdx \<Rightarrow>
                       (Inr (Some \<lparr>name = spdx, path = path_join tmp_dir ''LICENSE'',
                                   is_packaged = False\<rparr>), w3))))))))))"

text \<open>
  The arguments of a call bound to the parameters of
  \<open>search_license_api_github(github_url, version=None, default="Other")\<close>, as Python binds
  them: positional arguments first, in the order of the parameters, then the keyword
  arguments; a parameter left out takes its default. \<open>TypeError\<close> for more than three
  positional arguments, for a keyword that is no parameter, that is given twice or that
  names a parameter already bound by position, and for a call without \<open>github_url\<close>.
\<close>

definition bind_args :: "cache_key \<Rightarrow> py_error + (string option \<times> string option \<times> string option)" where
  "bind_args call =
     (let args = fst call;
          kwds = snd call;
          params = [''github_url'', ''version'', ''default'']
      in if length params < length args then Inl TypeError
         else if \<not> distinct (map fst kwds) then Inl TypeError
         else if list_ex (\<lambda>k. k \<notin> set params \<or> k \<in> set (take (length args) params)) (map fst kwds)
           then Inl TypeError
         else (let bound = map_of (zip params args @ kwds)
               in case bound ''github_url'' of
                    None \<Rightarrow> Inl TypeError
                  | Some github_url \<Rightarrow>
                      Inr (github_url,
                           (case bound ''version'' of None \<Rightarrow> None | Some version \<Rightarrow> version),
                           (case bound ''default'' of None \<Rightarrow> Some ''Other'' | Some dflt \<Rightarrow> dflt))))"

text \<open>
  \<open>user_function(*args, **kwds)\<close>, the call of the body that the decorator makes on a miss.
  The annotation says that \<open>github_url\<close> is a string; for \<open>None\<close> the first line of the body
  raises \<open>TypeError\<close> in \<open>re.sub\<close>.
\<close>

definition call_wrapped :: "env \<Rightarrow> world \<Rightarrow> cache_key \<Rightarrow> (py_error + ShortLicense option) \<times> world" where
  "call_wrapped e w call =
     (case bind_args call of
        Inl err \<Rightarrow> (Inl err, w)
      | Inr (None, version, dflt) \<Rightarrow> (Inl TypeError, w)
      | Inr (Some github_url, version, dflt) \<Rightarrow>
          search_license_api_github_wrapped e w github_url version dflt)"

text \<open>
  \<open>@lru_cache(maxsize=13)\<close>: the key is the call as written. A hit returns the stored
  result and makes the entry the most recent one; a miss runs the body and, when the body
  returns, stores the result in front, the least recently used entry leaving a full cache.
  A call that raises stores nothing.
\<close>

definition maxsize :: nat where
  "maxsize = 13"

definition search_license_api_github ::
  "env \<Rightarrow> world \<Rightarrow> cache_key \<Rightarrow> (py_error + ShortLicense option) \<times> world" where
  "search_license_api_github e w call =
     (case map_of (lru w) call of
        Some result \<Rightarrow>
          (Inr result, w\<lparr>lru := (call, result) # filter (\<lambda>kv. fst kv \<noteq> call) (lru w)\<rparr>)
      | None \<Rightarrow>
          (case call_wrapped e w call of
             (Inl err, w1) \<Rightarrow> (Inl err, w1)
           | (Inr result, w1) \<Rightarrow>
               (Inr result, w1\<lparr>lru := take maxsize ((call, result) # lru w1)\<rparr>)))"

text \<open>A run of calls of \<open>search_license_api_github\<close>, whatever they return.\<close>

fun api_calls :: "env \<Rightarrow> world \<Rightarrow> cache_key list \<Rightarrow> world" where
  "api_calls e w [] = w"
| "api_calls e w (call # ks) = api_calls e (snd (search_license_api_github e w call)) ks"

text \<open>Calls for thirteen repositories of the sample host, each with the URL alone.\<close>

definition thirteen_keys :: "cache_key list" where
  "thirteen_keys = map (\<lambda>c. ([Some (''https://github.com/org/'' @ [c])], [])) ''abcdefghijklm''"

subsection \<open>Discovery orchestrator\<close>




subsection \<open>Well-formed directory trees\<close>



subsection \<open>Whole words at the start of a file name\<close>

text \<open>The characters of ASCII: those with the highest bit clear.\<close>

definition is_ascii :: "char \<Rightarrow> bool" where
  "is_ascii c = (\<not> digit7 c)"

text \<open>The name starts with the lower-case word \<open>kw\<close>, in any case, and the word ends there:
  the name ends too, or goes on with a character that is no word character.\<close>

definition whole_word_at_start :: "string \<Rightarrow> string \<Rightarrow> bool" where
  "whole_word_at_start kw f =
     (length kw \<le> length f \<and> lower (take (length kw) f) = kw
      \<and> (case drop (length kw) f of [] \<Rightarrow> True | c # cs \<Rightarrow> \<not> is_word_char c))"

text \<open>Section 4.3 in the words of the specification: a case-insensitive whole-word match,
  anchored at the start of the name, of "copyright", "license"/"licenses", "copying" or
  "copyleft".\<close>

definition spec_re_search_match :: "string \<Rightarrow> bool" where
  "spec_re_search_match f =
     list_ex (\<lambda>kw. whole_word_at_start kw f)
       [''copyright'', ''license'', ''licenses'', ''copying'', ''copyleft'']"

subsection \<open>The rules of the specification for the URLs\<close>

text \<open>Section 4.6 in the words of the specification: a trailing slash is replaced by
  \<open>.git\<close>, else \<open>.git\<close> is appended if not already present.\<close>

definition spec_clone_url :: "string \<Rightarrow> string" where
  "spec_clone_url u =
     (if endswith u ''/'' then butlast u @ ''.git''
      else if endswith u ''.git'' then u
      else u @ ''.git'')"

text \<open>Section 4.5 in the words of the specification: the request URL, qualified with the
  revision as a query parameter when a revision is given.\<close>

definition spec_api_url :: "string \<Rightarrow> string option \<Rightarrow> string" where
  "spec_api_url request_url version =
     (case version of None \<Rightarrow> request_url | Some v \<Rightarrow> request_url @ ''?ref='' @ v)"

subsection \<open>The rule of the specification for the location\<close>


subsection \<open>Scores of the corpus\<close>

text \<open>The score of the \<open>j\<close>-th text of the corpus against a license text.\<close>

definition corpus_score :: "env \<Rightarrow> string \<Rightarrow> nat \<Rightarrow> nat" where
  "corpus_score e license_content j =
     token_sort_score e license_content (snd (get_all_licenses e ! j))"

subsection \<open>A sample environment\<close>

text \<open>
  A small environment and world on which the statements below are evaluated: a corpus of
  two texts, a scorer that gives 100 to equal texts and 0 to others, a host that knows two
  repositories (one with a license object, one whose \<open>license\<close> is null) and answers 404
  for the rest, a decoder that knows the base64 of "MIT", a git that always fails, a
  folder that holds nothing but \<open>LICENSE.txt\<close> with the MIT text, and an unpacked archive
  whose only license file lies one directory down and matches no text of the corpus.
\<close>

definition mit_text :: string where
  "mit_text = ''Permission is hereby granted, free of charge, to any person''"

definition mit_license :: License where
  "mit_license = \<lparr>license_name = ''MIT License'', license_id = ''MIT'',
                   other_names = [''MIT/Expat''], identifiers = [(''SPDX'', ''MIT'')]\<rparr>"

definition sample_env :: env where
  "sample_env =
     \<lparr>token_sort_score = (\<lambda>query choice. if query = choice then 100 else 0),
      get_all_licenses = [(''Apache-2.0'', ''Licensed under the Apache License, Version 2.0''),
                          (''MIT'', mit_text)],
      os_api_get = (\<lambda>nm. if nm = ''MIT'' then Some mit_license else None),
      os_api_all = [mit_license],
      requests_get = (\<lambda>url.
        if url = ''https://api.github.com/repos/org/repo/license''
        then Inr \<lparr>status_code = 200,
                  json = Inr (PDict [(''content'', PStr ''TUlU''),
                                     (''license'', PDict [(''spdx_id'', PStr ''MIT'')])])\<rparr>
        else if url = ''https://api.github.com/repos/org/unknown/license''
        then Inr \<lparr>status_code = 200,
                  json = Inr (PDict [(''content'', PStr ''TUlU''), (''license'', PNone)])\<rparr>
        else Inr \<lparr>status_code = 404, json = Inl ValueError\<rparr>),
      b64decode_utf8 = (\<lambda>s. if s = ''TUlU'' then Inr ''MIT'' else Inl (OtherError ''binascii.Error'')),
      run_git = (\<lambda>cmd. Inl (OtherError ''CalledProcessError'')),
      gettempdir = ''/tmp'',
      cwd_below_root = ''home/user''\<rparr>"

definition sample_world :: world where
  "sample_world =
     \<lparr>roots = [(''/src/sdist'', [File ''LICENSE.txt'' mit_text]),
               (''/src/unpacked'',
                [File ''setup.py'' ''from setuptools import setup'',
                 Dir ''pkg-1.0'' [File ''README.md'' ''A package'',
                                  File ''COPYING'' ''All rights reserved'']])],
      tmp_names = [''k3x9q2ab'', ''p0s7w1cd'', ''z8m4t6ef''],
      requests_log = [],
      lru = []\<rparr>"

section \<open>Supporting lemmas\<close>

subsection \<open>Helper facts on strings\<close>

lemma endswith_iff: "endswith s p \<longleftrightarrow> (\<exists>v. s = v @ p)"
proof
  assume "endswith s p"
  then have "s = take (length s - length p) s @ p"
    by (metis append_take_drop_id endswith_def)
  then show "\<exists>v. s = v @ p" ..
next
  assume "\<exists>v. s = v @ p"
  then show "endswith s p" by (auto simp: endswith_def)
qed

lemma re_sub_slash_end_trailing: "re_sub_slash_end (u @ ''/'') = u @ ''.git''"
  by (induction u) (auto simp: NL_def)

lemma re_sub_slash_end_unchanged:
  "\<not> endswith u ''/'' \<Longrightarrow> \<not> endswith u [CHR ''/'', NL] \<Longrightarrow> re_sub_slash_end u = u"
proof (induction u)
  case Nil
  then show ?case by simp
next
  case (Cons c u)
  have a: "\<not> endswith u ''/''" if "u \<noteq> []"
    using Cons.prems(1) that by (auto simp: endswith_iff)
  have b: "\<not> endswith u [CHR ''/'', NL]"
    using Cons.prems(2) by (auto simp: endswith_iff)
  have c: "\<not> (c = CHR ''/'' \<and> (u = [] \<or> u = [NL]))"
    using Cons.prems by (auto simp: endswith_iff)
  show ?case
  proof (cases "u = []")
    case True
    with c show ?thesis by simp
  next
    case False
    with a b Cons.IH c show ?thesis by auto
  qed
qed

lemma re_sub_slash_end_newline:
  "re_sub_slash_end (u @ [CHR ''/'', NL]) = u @ ''.git'' @ [NL]"
  by (induction u) (auto simp: NL_def)

lemma clone_url_cases:
  "clone_url u =
     (if endswith u ''/'' then butlast u @ ''.git''
      else if endswith u [CHR ''/'', NL] then take (length u - 2) u @ ''.git'' @ [NL] @ ''.git''
      else if endswith u ''.git'' then u
      else u @ ''.git'')"
proof -
  consider (slash) v where "u = v @ ''/''"
    | (newline) v where "u = v @ [CHR ''/'', NL]"
    | (plain) "\<not> endswith u ''/''" "\<not> endswith u [CHR ''/'', NL]"
    by (auto simp: endswith_iff)
  then show ?thesis
  proof cases
    case slash
    then have "endswith u ''/''" by (simp add: endswith_iff)
    moreover have "clone_url u = v @ ''.git''"
      by (simp add: slash clone_url_def re_sub_slash_end_trailing endswith_iff)
    moreover have "butlast u = v" by (simp add: slash)
    ultimately show ?thesis by simp
  next
    case newline
    have n1: "\<not> endswith u ''/''"
      by (auto simp: newline endswith_iff NL_def)
    have n2: "endswith u [CHR ''/'', NL]"
      by (simp add: newline endswith_iff)
    have n3: "\<not> endswith (v @ ''.git'' @ [NL]) ''.git''"
      by (auto simp: endswith_iff NL_def)
    have "clone_url u = v @ ''.git'' @ [NL] @ ''.git''"
      using n3 by (simp add: newline clone_url_def re_sub_slash_end_newline)
    moreover have "take (length u - 2) u = v" by (simp add: newline)
    ultimately show ?thesis using n1 n2 by simp
  next
    case plain
    then show ?thesis
      by (simp add: clone_url_def re_sub_slash_end_unchanged)
  qed
qed

lemma get_api_github_url_ref:
  "get_api_github_url u (Some v) =
     (if v = [] then get_api_github_url u None
      else map_sum id (\<lambda>r. r @ ''?ref='' @ v) (get_api_github_url u None))"
  by (simp add: get_api_github_url_def Let_def)

subsection \<open>Helper facts on the world\<close>

lemma mkdtemp_Inr:
  assumes "mkdtemp e pfx w = (Inr d, w1)"
  shows "d \<notin> fst ` set (roots w)"
    and "\<exists>n \<in> set (tmp_names w). d = path_join (gettempdir e) (pfx @ n)"
    and "roots w1 = roots w @ [(d, [])]"
    and "requests_log w1 = requests_log w"
    and "lru w1 = lru w"
proof -
  let ?P = "\<lambda>n. path_join (gettempdir e) (pfx @ n) \<in> fst ` set (roots w)"
  from assms obtain n ns where dw: "dropWhile ?P (tmp_names w) = n # ns"
    and d: "d = path_join (gettempdir e) (pfx @ n)"
    and w1: "w1 = w\<lparr>roots := roots w @ [(d, [])], tmp_names := ns\<rparr>"
    by (auto simp: mkdtemp_def Let_def split: list.splits)
  from dw have "\<not> ?P n"
    by (metis hd_dropWhile list.sel(1) list.distinct(1))
  with d show "d \<notin> fst ` set (roots w)" by simp
  from dw have "n \<in> set (tmp_names w)"
    by (metis list.set_intros(1) set_dropWhileD)
  with d show "\<exists>n \<in> set (tmp_names w). d = path_join (gettempdir e) (pfx @ n)" by blast
  from w1 show "roots w1 = roots w @ [(d, [])]" "requests_log w1 = requests_log w" "lru w1 = lru w"
    by simp_all
qed

lemma mkdtemp_succeeds:
  assumes "n \<in> set (tmp_names w)"
    and "path_join (gettempdir e) (pfx @ n) \<notin> fst ` set (roots w)"
  shows "\<exists>d w1. mkdtemp e pfx w = (Inr d, w1)"
proof -
  let ?P = "\<lambda>n. path_join (gettempdir e) (pfx @ n) \<in> fst ` set (roots w)"
  from assms have "dropWhile ?P (tmp_names w) \<noteq> []"
    by (auto simp: dropWhile_eq_Nil_conv)
  then show ?thesis
    by (auto simp: mkdtemp_def Let_def split: list.splits)
qed

lemma mkdtemp_Inl:
  assumes "mkdtemp e pfx w = (Inl err, w1)"
  shows "roots w1 = roots w" "requests_log w1 = requests_log w" "lru w1 = lru w"
  using assms by (auto simp: mkdtemp_def Let_def split: list.splits)

lemma map_of_new_root:
  assumes "mkdtemp e pfx w = (Inr d, w1)"
  shows "map_of (roots w1) d = Some []"
proof -
  from mkdtemp_Inr [OF assms] have r: "roots w1 = roots w @ [(d, [])]"
    and nd: "d \<notin> fst ` set (roots w)" by auto
  from nd have "map_of (roots w) d = None"
    by (simp add: map_of_eq_None_iff)
  then show ?thesis
    by (simp add: r map_add_def)
qed

lemma open_write_after_mkdtemp:
  assumes "mkdtemp e pfx w = (Inr d, w1)"
  shows "\<exists>w2. open_write w1 d n c = Inr w2 \<and> lru w2 = lru w \<and> requests_log w2 = requests_log w"
  using map_of_new_root [OF assms] mkdtemp_Inr(4,5) [OF assms]
  by (simp add: open_write_def)

lemma check_output_roots:
  "fst ` set (roots (snd (check_output e cmd w))) = fst ` set (roots w)"
  by (force simp: check_output_def split: sum.splits if_splits)

subsection \<open>Helper facts on the host API client\<close>

lemma bind_args_positional: "bind_args ([u, v, d], []) = Inr (u, v, d)"
  by (simp add: bind_args_def)

lemma call_wrapped_bound:
  "bind_args call = Inr (Some u, v, d) \<Longrightarrow>
     call_wrapped e w call = search_license_api_github_wrapped e w u v d"
  by (simp add: call_wrapped_def)

lemma miss_fst:
  "map_of (lru w) call = None \<Longrightarrow> bind_args call = Inr (Some u, v, d) \<Longrightarrow>
     fst (search_license_api_github e w call) = fst (search_license_api_github_wrapped e w u v d)"
  by (simp add: search_license_api_github_def call_wrapped_bound split: prod.splits sum.splits)

lemma wrapped_non_200:
  assumes "get_api_github_url github_url version = Inr api_url"
      and "requests_get e api_url = Inr resp"
      and "status_code resp \<noteq> 200"
  shows "search_license_api_github_wrapped e w github_url version dflt =
           (Inr None, w\<lparr>requests_log := requests_log w @ [api_url]\<rparr>)"
  using assms by (simp add: search_license_api_github_wrapped_def)

lemma wrapped_200:
  assumes url: "get_api_github_url github_url version = Inr api_url"
    and resp: "requests_get e api_url = Inr resp" "status_code resp = 200"
              "json resp = Inr (PDict kvs)"
    and content: "map_of kvs ''content'' = Some (PStr c)" "b64decode_utf8 e c = Inr text"
    and tmp: "mkdtemp e ''github-license-'' (w\<lparr>requests_log := requests_log w @ [api_url]\<rparr>)
                = (Inr tmp_dir, w2)"
  shows "fst (search_license_api_github_wrapped e w github_url version dflt) =
     (case map_of kvs ''license'' of
        None \<Rightarrow> Inr (Some \<lparr>name = of_optional dflt, path = path_join tmp_dir ''LICENSE'',
                             is_packaged = False\<rparr>)
      | Some (PDict obj) \<Rightarrow>
          Inr (Some \<lparr>name = (case map_of obj ''spdx_id'' of None \<Rightarrow> of_optional dflt | Some x \<Rightarrow> x),
                      path = path_join tmp_dir ''LICENSE'', is_packaged = False\<rparr>)
      | Some other \<Rightarrow> Inl AttributeError)"
proof -
  from open_write_after_mkdtemp [OF tmp] obtain w3
    where w3: "open_write w2 tmp_dir ''LICENSE'' text = Inr w3" by blast
  show ?thesis
    using url resp content tmp w3
    by (simp add: search_license_api_github_wrapped_def py_getitem_def py_get_def decode_content_def
             split: option.splits pyval.splits)
qed

lemma wrapped_null_license_raises:
  assumes url: "get_api_github_url github_url version = Inr api_url"
    and resp: "requests_get e api_url = Inr resp" "status_code resp = 200"
              "json resp = Inr (PDict kvs)"
    and null: "map_of kvs ''license'' = Some PNone"
  shows "isl (fst (search_license_api_github_wrapped e w github_url version dflt))"
  using assms
  by (auto simp: search_license_api_github_wrapped_def py_get_def Let_def
           split: sum.splits prod.splits)

subsection \<open>Helper facts on paths and the walk\<close>

lemma split_sep_not_Nil [simp]: "split_sep c xs \<noteq> []"
  by (induction xs) (auto split: list.splits)







































subsection \<open>Helper facts on the best match\<close>

lemma foldl_first_max:
  fixes f :: "'a \<Rightarrow> nat"
  assumes "i < k" "k \<le> length zs"
    and "\<forall>j<k. f (zs ! j) \<le> f (zs ! i)"
    and "\<forall>j<i. f (zs ! j) < f (zs ! i)"
  shows "\<exists>m<length zs.
           foldl (\<lambda>best y. if snd best < snd y then y else best) (zs ! i, f (zs ! i))
                 (map (\<lambda>c. (c, f c)) (drop k zs)) = (zs ! m, f (zs ! m))
         \<and> (\<forall>j<length zs. f (zs ! j) \<le> f (zs ! m))
         \<and> (\<forall>j<m. f (zs ! j) < f (zs ! m))"
  using assms
proof (induction "length zs - k" arbitrary: i k)
  case 0
  then have "drop k zs = []" by simp
  with 0 show ?case by auto
next
  case (Suc n)
  then have k: "k < length zs" by simp
  then have dr: "drop k zs = zs ! k # drop (Suc k) zs"
    by (simp add: Cons_nth_drop_Suc)
  show ?case
  proof (cases "f (zs ! i) < f (zs ! k)")
    case True
    have a: "\<forall>j<Suc k. f (zs ! j) \<le> f (zs ! k)"
      using Suc.prems(3) True by (metis le_eq_less_or_eq less_Suc_eq order.strict_trans1)
    have b: "\<forall>j<k. f (zs ! j) < f (zs ! k)"
      using Suc.prems(3) True by (meson order.strict_trans1)
    from Suc.hyps(1) [of "Suc k" k] Suc.hyps(2) k a b
    show ?thesis unfolding dr using True by simp
  next
    case False
    have a: "\<forall>j<Suc k. f (zs ! j) \<le> f (zs ! i)"
      using Suc.prems(3) False by (auto simp: less_Suc_eq)
    from Suc.hyps(1) [of "Suc k" i] Suc.hyps(2) k a Suc.prems(1,4)
    show ?thesis unfolding dr using False by simp
  qed
qed

lemma extractOne_first_max:
  assumes "choices \<noteq> []"
  shows "\<exists>m<length choices.
           extractOne score query choices = Some (choices ! m, score query (choices ! m))
         \<and> (\<forall>j<length choices. score query (choices ! j) \<le> score query (choices ! m))
         \<and> (\<forall>j<m. score query (choices ! j) < score query (choices ! m))"
proof -
  from assms obtain c cs where cs: "choices = c # cs" by (cases choices) auto
  have "\<exists>m<length choices.
           foldl (\<lambda>best y. if snd best < snd y then y else best)
                 (choices ! 0, score query (choices ! 0))
                 (map (\<lambda>c. (c, score query c)) (drop 1 choices))
             = (choices ! m, score query (choices ! m))
         \<and> (\<forall>j<length choices. score query (choices ! j) \<le> score query (choices ! m))
         \<and> (\<forall>j<m. score query (choices ! j) < score query (choices ! m))"
    by (rule foldl_first_max) (use assms in \<open>auto simp: Suc_leI\<close>)
  then show ?thesis
    by (simp add: extractOne_def cs)
qed

lemma py_index_first:
  assumes "x \<in> set xs"
  shows "\<exists>m<length xs. py_index xs x = Inr m \<and> xs ! m = x \<and> (\<forall>j<m. xs ! j \<noteq> x)"
  using assms
proof (induction xs)
  case Nil
  then show ?case by simp
next
  case (Cons y ys)
  show ?case
  proof (cases "y = x")
    case True
    then show ?thesis by auto
  next
    case False
    with Cons obtain m where m: "m < length ys" "py_index ys x = Inr m" "ys ! m = x"
      "\<forall>j<m. ys ! j \<noteq> x" by auto
    have "\<forall>j<Suc m. (y # ys) ! j \<noteq> x"
      using False m(4) by (auto simp: nth_Cons split: nat.splits)
    with m False show ?thesis
      by (intro exI [of _ "Suc m"]) simp
  qed
qed

lemma get_license_type_empty_corpus:
  assumes "open_read w path_license = Inr license_content"
      and "get_all_licenses e = []"
  shows "get_license_type e w path_license dflt = Inl TypeError"
  using assms by (simp add: get_license_type_def extractOne_def)

subsection \<open>Helper facts on the cache\<close>

lemma open_write_lru: "open_write w d n c = Inr w' \<Longrightarrow> lru w' = lru w"
  by (auto simp: open_write_def split: option.splits)

lemma mkdtemp_lru: "mkdtemp e pfx w = (x, w') \<Longrightarrow> lru w' = lru w"
  by (cases x) (auto dest: mkdtemp_Inl(3) mkdtemp_Inr(5))

lemma wrapped_lru:
  "lru (snd (search_license_api_github_wrapped e w u v d)) = lru w"
  unfolding search_license_api_github_wrapped_def Let_def
  apply (simp split: sum.split prod.split)
  apply (intro allI impI conjI)
  apply (auto dest!: mkdtemp_lru open_write_lru)
  done

lemma call_wrapped_lru: "lru (snd (call_wrapped e w c)) = lru w"
  by (simp add: call_wrapped_def wrapped_lru split: sum.split prod.split option.split)

lemma cache_hit:
  assumes "map_of (lru w) c = Some r"
  shows "search_license_api_github e w c =
           (Inr r, w\<lparr>lru := (c, r) # filter (\<lambda>kv. fst kv \<noteq> c) (lru w)\<rparr>)"
  using assms by (simp add: search_license_api_github_def Let_def)

lemma cache_miss:
  assumes "map_of (lru w) c = None"
  shows "search_license_api_github e w c =
           (case call_wrapped e w c of
              (Inl err, w1) \<Rightarrow> (Inl err, w1)
            | (Inr result, w1) \<Rightarrow>
                (Inr result, w1\<lparr>lru := take maxsize ((c, result) # lru w1)\<rparr>))"
  using assms by (simp add: search_license_api_github_def Let_def)

lemma map_of_behind:
  assumes "c = pre @ (k, r) # post" "k \<notin> fst ` set pre"
  shows "map_of c k = Some r"
proof -
  have "map_of pre k = None"
    using assms(2) by (simp add: map_of_eq_None_iff)
  then show ?thesis
    by (simp add: assms(1) map_add_def)
qed

lemma after_return:
  assumes "search_license_api_github e w c = (Inr r, w1)"
  shows "\<exists>post. lru w1 = (c, r) # post"
proof (cases "map_of (lru w) c")
  case None
  from assms show ?thesis
    unfolding cache_miss [OF None]
    by (auto simp: maxsize_def split: prod.splits sum.splits)
next
  case (Some r')
  from assms show ?thesis
    unfolding cache_hit [OF Some] by auto
qed

lemma take_keep: "length xs < n \<Longrightarrow> take n (xs @ y # ys) = xs @ y # take (n - length xs - 1) ys"
  by (cases "n - length xs") auto

lemma step_other:
  assumes inv: "lru w = pre @ (k, r) # post" "distinct (map fst pre)" "fst ` set pre \<subseteq> S"
    and fin: "finite S" and other: "c \<noteq> k" and card: "card (insert c S) < maxsize"
  shows "\<exists>pre' post'. lru (snd (search_license_api_github e w c)) = pre' @ (k, r) # post'
           \<and> distinct (map fst pre') \<and> fst ` set pre' \<subseteq> insert c S"
proof (cases "map_of (lru w) c")
  case (Some r')
  let ?P = "\<lambda>kv. fst kv \<noteq> c"
  have "lru (snd (search_license_api_github e w c)) =
          ((c, r') # filter ?P pre) @ (k, r) # filter ?P post"
    unfolding cache_hit [OF Some] using other by (simp add: inv(1))
  moreover have "distinct (map fst ((c, r') # filter ?P pre))"
    using inv(2) by (auto simp: distinct_map_filter)
  moreover have "fst ` set ((c, r') # filter ?P pre) \<subseteq> insert c S"
    using inv(3) by auto
  ultimately show ?thesis
    by (intro exI [of _ "(c, r') # filter ?P pre"] exI [of _ "filter ?P post"]) simp
next
  case None
  obtain res w1 where w: "call_wrapped e w c = (res, w1)"
    by (cases "call_wrapped e w c")
  have l1: "lru w1 = lru w"
    using call_wrapped_lru [of e w c] w by simp
  show ?thesis
  proof (cases res)
    case (Inl err)
    with w l1 have "lru (snd (search_license_api_github e w c)) = lru w"
      unfolding cache_miss [OF None] by simp
    with inv show ?thesis
      by (intro exI [of _ pre] exI [of _ post]) auto
  next
    case (Inr r')
    let ?new = "(c, r') # pre"
    have notin: "c \<notin> fst ` set pre"
      using None inv(1) by (auto simp: map_of_eq_None_iff)
    have d: "distinct (map fst ?new)"
      using inv(2) notin by simp
    have sub: "fst ` set ?new \<subseteq> insert c S"
      using inv(3) by auto
    have "length ?new = card (fst ` set ?new)"
      using distinct_card [OF d] by simp
    also have "\<dots> \<le> card (insert c S)"
      by (rule card_mono) (use fin sub in auto)
    finally have len: "length ?new < maxsize"
      using card by simp
    have "lru (snd (search_license_api_github e w c)) = take maxsize ((c, r') # lru w)"
      unfolding cache_miss [OF None] using w l1 Inr by simp
    also have "\<dots> = take maxsize (?new @ (k, r) # post)"
      by (simp only: inv(1) append_Cons)
    also have "\<dots> = ?new @ (k, r) # take (maxsize - length ?new - 1) post"
      using len by (rule take_keep)
    finally have "lru (snd (search_license_api_github e w c)) =
        ?new @ (k, r) # take (maxsize - length ?new - 1) post" .
    with d sub show ?thesis
      by (intro exI [of _ ?new] exI [of _ "take (maxsize - length ?new - 1) post"]) simp
  qed
qed

lemma step_same:
  assumes inv: "lru w = pre @ (k, r) # post" "k \<notin> fst ` set pre" and k: "k = c"
  shows "\<exists>post'. lru (snd (search_license_api_github e w c)) = (k, r) # post'"
  using cache_hit [of w c r e] map_of_behind [OF inv] k by simp

lemma calls_keep:
  assumes "lru w = pre @ (k, r) # post" "distinct (map fst pre)" "fst ` set pre \<subseteq> S"
    and "finite S" "k \<notin> S" "card (S \<union> (set ks - {k})) < maxsize"
  shows "\<exists>pre' post'. lru (api_calls e w ks) = pre' @ (k, r) # post' \<and> k \<notin> fst ` set pre'"
  using assms
proof (induction ks arbitrary: w pre post S)
  case Nil
  then show ?case by auto
next
  case (Cons k' ks)
  define c where "c = k'"
  then have k': "k' = c" by simp
  let ?w = "snd (search_license_api_github e w c)"
  show ?case
  proof (cases "k' = k")
    case True
    have "k \<notin> fst ` set pre" using Cons.prems(3,5) by auto
    from step_same [OF Cons.prems(1) this, of c e] True k' obtain post' where
      l: "lru ?w = [] @ (k, r) # post'" by auto
    have "card (S \<union> (set ks - {k})) < maxsize"
      using Cons.prems(6) True by (simp add: insert_Diff_if)
    from Cons.IH [OF l _ _ Cons.prems(4,5) this] show ?thesis
      by (simp add: k')
  next
    case False
    have sub: "insert k' S \<subseteq> S \<union> (set (k' # ks) - {k})"
      using False by auto
    have fin: "finite (S \<union> (set (k' # ks) - {k}))"
      using Cons.prems(4) by simp
    have c: "card (insert k' S) < maxsize"
      using card_mono [OF fin sub] Cons.prems(6) by simp
    from step_other [OF Cons.prems(1-4) False [unfolded k'] c [unfolded k'], of e] obtain pre' post' where
      l: "lru ?w = pre' @ (k, r) # post'" "distinct (map fst pre')" "fst ` set pre' \<subseteq> insert k' S"
      unfolding k' by blast
    have eq: "insert k' S \<union> (set ks - {k}) = S \<union> (set (k' # ks) - {k})"
      using False by auto
    have "card (insert k' S \<union> (set ks - {k})) < maxsize"
      unfolding eq by (rule Cons.prems(6))
    from Cons.IH [OF l _ _ this] Cons.prems(4,5) False show ?thesis
      by (simp add: k')
  qed
qed

subsection \<open>Helper facts on the file-name pattern\<close>

lemma lower_char_cases:
  "lower_char c = c
   \<or> (c \<in> set ''ABCDEFGHIJKLMNOPQRSTUVWXYZ'' \<and> lower_char c \<in> set ''abcdefghijklmnopqrstuvwxyz'')"
proof (cases "map_of (zip ''ABCDEFGHIJKLMNOPQRSTUVWXYZ'' ''abcdefghijklmnopqrstuvwxyz'') c")
  case None
  then have "lower_char c = c"
    by (simp only: lower_char_def option.case)
  then show ?thesis ..
next
  case (Some l)
  then have l: "lower_char c = l"
    by (simp only: lower_char_def option.case)
  from Some have "(c, l) \<in> set (zip ''ABCDEFGHIJKLMNOPQRSTUVWXYZ'' ''abcdefghijklmnopqrstuvwxyz'')"
    by (rule map_of_SomeD)
  then have "c \<in> set ''ABCDEFGHIJKLMNOPQRSTUVWXYZ''" "l \<in> set ''abcdefghijklmnopqrstuvwxyz''"
    by (rule set_zip_leftD, rule set_zip_rightD)
  with l show ?thesis by blast
qed

lemma is_word_char_sets:
  "is_word_char c \<longleftrightarrow>
     c \<in> set ''abcdefghijklmnopqrstuvwxyz'' \<or> c \<in> set ''ABCDEFGHIJKLMNOPQRSTUVWXYZ''
     \<or> c \<in> set ''0123456789_''"
  by (simp only: is_word_char_def set_append Un_iff)

lemma is_word_char_lower: "is_word_char (lower_char c) = is_word_char c"
  using lower_char_cases [of c]
proof
  assume "lower_char c = c"
  then show ?thesis by (simp only:)
next
  assume "c \<in> set ''ABCDEFGHIJKLMNOPQRSTUVWXYZ'' \<and> lower_char c \<in> set ''abcdefghijklmnopqrstuvwxyz''"
  then show ?thesis
    by (simp only: is_word_char_sets simp_thms)
qed

lemma lower_s_word: "lower_char c = CHR ''s'' \<Longrightarrow> is_word_char c"
proof -
  assume a: "lower_char c = CHR ''s''"
  have "is_word_char CHR ''s''" by (simp add: is_word_char_def)
  with a have "is_word_char (lower_char c)" by (simp only:)
  then show ?thesis by (simp only: is_word_char_lower)
qed

lemma word_chars_of_lower:
  assumes "lower xs = kw" "\<forall>c\<in>set kw. is_word_char c"
  shows "\<forall>c\<in>set xs. is_word_char c"
proof
  fix c assume "c \<in> set xs"
  then have "lower_char c \<in> set kw"
    using assms(1) by (auto simp: lower_def)
  with assms(2) have "is_word_char (lower_char c)" by blast
  then show "is_word_char c" by (simp only: is_word_char_lower)
qed

lemma word_boundary_after:
  "is_word_char p \<Longrightarrow> word_boundary (Some p) rest \<longleftrightarrow> (rest = [] \<or> \<not> is_word_char (hd rest))"
  by (cases rest) (auto simp: word_boundary_def)

lemma word_boundary_start:
  "word_boundary None s \<longleftrightarrow> (s \<noteq> [] \<and> is_word_char (hd s))"
  by (cases s) (auto simp: word_boundary_def)

lemma match_literal_word:
  assumes "kw \<noteq> []" "\<forall>c\<in>set kw. is_word_char c"
    and "length kw \<le> length s" "lower (take (length kw) s) = kw"
  shows "match_literal kw None s = Some (Some (last (take (length kw) s)), drop (length kw) s)"
    and "is_word_char (last (take (length kw) s))"
    and "word_boundary None s"
proof -
  let ?pre = "take (length kw) s"
  from assms(1,3) have ne: "?pre \<noteq> []" by auto
  from assms(4) have w: "\<forall>c\<in>set ?pre. is_word_char c"
    using word_chars_of_lower [OF _ assms(2)] by blast
  from ne w show "is_word_char (last ?pre)" by simp
  from ne obtain c cs where s: "s = c # cs" by (cases s) auto
  from ne obtain m where n: "length kw = Suc m" by (cases "length kw") auto
  have "c \<in> set ?pre" by (simp add: s n)
  with w have "is_word_char c" by blast
  then show "word_boundary None s"
    by (simp add: word_boundary_start s)
  from assms(1,3,4) show "match_literal kw None s = Some (Some (last ?pre), drop (length kw) s)"
    by (simp add: match_literal_def)
qed

lemma match_literal_None:
  "\<not> (length kw \<le> length s \<and> lower (take (length kw) s) = kw) \<Longrightarrow> match_literal kw None s = None"
  by (simp add: match_literal_def)

lemma match_word_iff:
  assumes "kw \<noteq> []" "\<forall>c\<in>set kw. is_word_char c"
  shows "match_word kw s \<longleftrightarrow>
           (length kw \<le> length s \<and> lower (take (length kw) s) = kw
            \<and> (drop (length kw) s = [] \<or> \<not> is_word_char (hd (drop (length kw) s))))"
proof (cases "length kw \<le> length s \<and> lower (take (length kw) s) = kw")
  case False
  have "\<not> match_word kw s"
    by (simp only: match_word_def match_literal_None [OF False]) simp
  with False show ?thesis by blast
next
  case True
  then have t: "length kw \<le> length s" "lower (take (length kw) s) = kw" by simp_all
  note m = match_literal_word [OF assms t]
  have "match_word kw s \<longleftrightarrow>
          (drop (length kw) s = [] \<or> \<not> is_word_char (hd (drop (length kw) s)))"
    by (simp only: match_word_def m(1) m(3) option.case prod.case
                   word_boundary_after [OF m(2)] simp_thms)
  with t show ?thesis by blast
qed

lemma match_star_s_iff:
  "is_word_char p \<Longrightarrow>
     list_ex (\<lambda>(q, r). word_boundary q r) (match_star_s (Some p) rest) \<longleftrightarrow>
       (dropWhile (\<lambda>c. lower_char c = CHR ''s'') rest = []
        \<or> \<not> is_word_char (hd (dropWhile (\<lambda>c. lower_char c = CHR ''s'') rest)))"
proof (induction rest arbitrary: p)
  case Nil
  then show ?case by (simp add: word_boundary_after)
next
  case (Cons c cs)
  show ?case
  proof (cases "lower_char c = CHR ''s''")
    case True
    then have "is_word_char c" by (rule lower_s_word)
    with Cons True show ?thesis
      by (simp add: word_boundary_after)
  next
    case False
    with Cons.prems show ?thesis
      by (simp add: word_boundary_after)
  qed
qed

lemma match_licenses_iff:
  "match_licenses s \<longleftrightarrow>
     (length ''license'' \<le> length s \<and> lower (take (length ''license'') s) = ''license''
      \<and> (dropWhile (\<lambda>c. lower_char c = CHR ''s'') (drop (length ''license'') s) = []
         \<or> \<not> is_word_char (hd (dropWhile (\<lambda>c. lower_char c = CHR ''s'')
                                   (drop (length ''license'') s)))))"
proof (cases "length ''license'' \<le> length s \<and> lower (take (length ''license'') s) = ''license''")
  case False
  have "\<not> match_licenses s"
    by (simp only: match_licenses_def match_literal_None [OF False]) simp
  with False show ?thesis by blast
next
  case True
  then have t: "length ''license'' \<le> length s" "lower (take (length ''license'') s) = ''license''"
    by simp_all
  have kw: "''license'' \<noteq> []" "\<forall>c\<in>set ''license''. is_word_char c"
    by (simp_all add: is_word_char_def)
  note m = match_literal_word [OF kw t]
  have "match_licenses s \<longleftrightarrow>
          (dropWhile (\<lambda>c. lower_char c = CHR ''s'') (drop (length ''license'') s) = []
           \<or> \<not> is_word_char (hd (dropWhile (\<lambda>c. lower_char c = CHR ''s'')
                                     (drop (length ''license'') s))))"
    by (simp only: match_licenses_def m(1) m(3) option.case prod.case
                   match_star_s_iff [OF m(2)] simp_thms)
  with t show ?thesis by blast
qed

lemma re_search_match_iff:
  "re_search_match f \<longleftrightarrow>
     (\<exists>kw\<in>{''copyright'', ''copying'', ''copyleft''}.
         length kw \<le> length f \<and> lower (take (length kw) f) = kw
         \<and> (drop (length kw) f = [] \<or> \<not> is_word_char (hd (drop (length kw) f))))
     \<or> (length ''license'' \<le> length f \<and> lower (take (length ''license'') f) = ''license''
        \<and> (dropWhile (\<lambda>c. lower_char c = CHR ''s'') (drop (length ''license'') f) = []
           \<or> \<not> is_word_char (hd (dropWhile (\<lambda>c. lower_char c = CHR ''s'')
                                     (drop (length ''license'') f)))))"
proof -
  have kws: "kw \<noteq> [] \<and> (\<forall>c\<in>set kw. is_word_char c)"
    if "kw \<in> {''copyright'', ''copying'', ''copyleft''}" for kw
    using that by (auto simp: is_word_char_def)
  have a: "match_word ''copyright'' f \<longleftrightarrow> (length ''copyright'' \<le> length f \<and> lower (take (length ''copyright'') f) = ''copyright''
            \<and> (drop (length ''copyright'') f = [] \<or> \<not> is_word_char (hd (drop (length ''copyright'') f))))"
    by (rule match_word_iff) (use kws [of "''copyright''"] in simp_all)
  have b: "match_word ''copying'' f \<longleftrightarrow> (length ''copying'' \<le> length f \<and> lower (take (length ''copying'') f) = ''copying''
            \<and> (drop (length ''copying'') f = [] \<or> \<not> is_word_char (hd (drop (length ''copying'') f))))"
    by (rule match_word_iff) (use kws [of "''copying''"] in simp_all)
  have c: "match_word ''copyleft'' f \<longleftrightarrow> (length ''copyleft'' \<le> length f \<and> lower (take (length ''copyleft'') f) = ''copyleft''
            \<and> (drop (length ''copyleft'') f = [] \<or> \<not> is_word_char (hd (drop (length ''copyleft'') f))))"
    by (rule match_word_iff) (use kws [of "''copyleft''"] in simp_all)
  show ?thesis
    by (simp only: re_search_match_def a b c match_licenses_iff bex_simps ball_simps
                   insert_iff empty_iff) blast
qed

lemma re_search_match_more_examples:
  "\<not> re_search_match ''UNLICENSE'' \<and> \<not> re_search_match ''MY-LICENSE''
   \<and> \<not> re_search_match ''LICENSE_MIT'' \<and> \<not> re_search_match ''copyrights''
   \<and> re_search_match ''licenses'' \<and> re_search_match ''COPYLEFT.rst''
   \<and> re_search_match ''LICENSESS.txt''"
  by code_simp

lemma whole_word_at_start_iff:
  "whole_word_at_start kw f \<longleftrightarrow>
     (length kw \<le> length f \<and> lower (take (length kw) f) = kw
      \<and> (drop (length kw) f = [] \<or> \<not> is_word_char (hd (drop (length kw) f))))"
  by (cases "drop (length kw) f") (auto simp: whole_word_at_start_def)

lemma lower_replicate_s:
  "lower xs = replicate n CHR ''s'' \<longleftrightarrow> length xs = n \<and> (\<forall>c\<in>set xs. lower_char c = CHR ''s'')"
proof
  assume a: "lower xs = replicate n CHR ''s''"
  then have "length xs = n"
    by (metis length_map length_replicate lower_def)
  moreover from a have "\<forall>c\<in>set xs. lower_char c = CHR ''s''"
    by (metis (no_types, lifting) image_eqI in_set_replicate list.set_map lower_def)
  ultimately show "length xs = n \<and> (\<forall>c\<in>set xs. lower_char c = CHR ''s'')" ..
next
  assume "length xs = n \<and> (\<forall>c\<in>set xs. lower_char c = CHR ''s'')"
  then show "lower xs = replicate n CHR ''s''"
    by (auto simp: lower_def map_replicate_const [symmetric] intro!: map_cong simp del: map_replicate_const)
qed

text \<open>A word followed by a run of \<open>s\<close> of some length, ending at a word boundary: the run
  is the longest one, since a further \<open>s\<close> would be a word character.\<close>

lemma word_run:
  "(\<exists>n. whole_word_at_start (kw @ replicate n CHR ''s'') f) \<longleftrightarrow>
     (length kw \<le> length f \<and> lower (take (length kw) f) = kw
      \<and> (dropWhile (\<lambda>c. lower_char c = CHR ''s'') (drop (length kw) f) = []
         \<or> \<not> is_word_char (hd (dropWhile (\<lambda>c. lower_char c = CHR ''s'')
                                   (drop (length kw) f)))))"
  (is "?L \<longleftrightarrow> ?R")
proof
  let ?P = "\<lambda>c. lower_char c = CHR ''s''"
  let ?k = "length kw"
  let ?r = "drop ?k f"
  assume ?L
  then obtain n where "whole_word_at_start (kw @ replicate n CHR ''s'') f" ..
  then have n: "?k + n \<le> length f"
    "lower (take (?k + n) f) = kw @ replicate n CHR ''s''"
    "drop (?k + n) f = [] \<or> \<not> is_word_char (hd (drop (?k + n) f))"
    unfolding whole_word_at_start_iff by (simp_all only: length_append length_replicate)
  have tk: "take (?k + n) f = take ?k f @ take n ?r"
    by (simp add: take_add)
  from n(1) have len: "length (take ?k f) = ?k" by simp
  from n(2) have "lower (take ?k f) @ lower (take n ?r) = kw @ replicate n CHR ''s''"
    by (simp only: tk lower_def map_append)
  with len have l1: "lower (take ?k f) = kw" and l2: "lower (take n ?r) = replicate n CHR ''s''"
    by (simp_all add: lower_def)
  from l2 have run: "\<forall>c\<in>set (take n ?r). ?P c"
    by (simp add: lower_replicate_s)
  have dr: "drop (?k + n) f = drop n ?r" by (simp add: add.commute)
  have "dropWhile ?P ?r = dropWhile ?P (take n ?r @ drop n ?r)"
    by (simp only: append_take_drop_id)
  also have "\<dots> = dropWhile ?P (drop n ?r)"
    using run by (simp only: dropWhile_append2)
  also have "\<dots> = drop n ?r"
  proof (cases "drop n ?r")
    case Nil
    then show ?thesis by simp
  next
    case (Cons c cs)
    with n(3) dr have "\<not> is_word_char c" by (simp only: list.distinct list.sel simp_thms)
    then have "\<not> ?P c" using lower_s_word by blast
    with Cons show ?thesis by simp
  qed
  finally have "dropWhile ?P ?r = drop (?k + n) f" by (simp only: dr)
  with n l1 show ?R by (simp only: simp_thms)
next
  let ?P = "\<lambda>c. lower_char c = CHR ''s''"
  let ?k = "length kw"
  let ?r = "drop ?k f"
  let ?n = "length (takeWhile ?P ?r)"
  assume abc: ?R
  have r: "?r = takeWhile ?P ?r @ dropWhile ?P ?r" by simp
  have t: "take ?n ?r = takeWhile ?P ?r"
    by (metis append_eq_conv_conj r)
  have d: "drop ?n ?r = dropWhile ?P ?r"
    by (metis append_eq_conv_conj r)
  from abc have kl: "?k \<le> length f" and lk: "lower (take ?k f) = kw"
    and fin: "dropWhile ?P ?r = [] \<or> \<not> is_word_char (hd (dropWhile ?P ?r))"
    by (simp_all only: simp_thms)
  have le: "?k + ?n \<le> length f"
    using kl length_takeWhile_le [of ?P ?r] by simp
  have "\<forall>c\<in>set (takeWhile ?P ?r). ?P c"
    by (meson set_takeWhileD)
  then have "lower (take ?n ?r) = replicate ?n CHR ''s''"
    unfolding t by (simp add: lower_replicate_s)
  moreover have "take (?k + ?n) f = take ?k f @ take ?n ?r"
    by (simp add: take_add)
  ultimately have lw: "lower (take (?k + ?n) f) = kw @ replicate ?n CHR ''s''"
    using lk by (simp add: lower_def)
  have "drop (?k + ?n) f = dropWhile ?P ?r"
    using d by (simp add: add.commute)
  with fin le lw have "whole_word_at_start (kw @ replicate ?n CHR ''s'') f"
    unfolding whole_word_at_start_iff by (simp only: length_append length_replicate simp_thms)
  then show ?L ..
qed

section \<open>The claims\<close>

subsection \<open>C1: the text classifier\<close>

text \<open>
  C1 says that \<open>get_license_type\<close> returns the default whenever a default is supplied and the
  best score is below 76. The test of line 183 is \<open>if default and ...\<close>: a default that is
  the empty string counts as none. The orchestrator hands an empty declared name on as it
  is (lines 83 to 86), so the scanner does call the classifier with it. On the sample
  corpus a text that scores 0 against every entry is then given the identifier of the
  first entry, not the empty default.
\<close>

theorem empty_default_counterexample:
  "corpus_score sample_env ''All rights reserved'' 0 < 76
   \<and> corpus_score sample_env ''All rights reserved'' 1 < 76
   \<and> open_read sample_world ''/src/unpacked/pkg-1.0/COPYING'' = Inr ''All rights reserved''
   \<and> get_license_type sample_env sample_world ''/src/unpacked/pkg-1.0/COPYING'' (Some [])
        = Inr (Some ''Apache-2.0'')
   \<and> get_license_type sample_env sample_world ''/src/unpacked/pkg-1.0/COPYING'' (Some [])
        \<noteq> Inr (Some [])"
  by code_simp

text \<open>
  C1 as amended: for every license file that can be read, \<open>get_license_type\<close> raises
  \<open>TypeError\<close> on an empty corpus, and on any other corpus settles on the entry with the
  highest score, the first of them in corpus order when several share it. If a default
  that is not the empty string is supplied and that score is below 76, the default is
  returned; otherwise, so always when the default is absent or empty, the identifier of
  that entry is returned, whatever the score.
\<close>

theorem get_license_type_best_match:
  assumes "open_read w path_license = Inr license_content"
  shows "(get_all_licenses e = [] \<longrightarrow> get_license_type e w path_license dflt = Inl TypeError)
       \<and> (get_all_licenses e \<noteq> [] \<longrightarrow>
           (\<exists>i<length (get_all_licenses e).
              (\<forall>j<length (get_all_licenses e).
                  corpus_score e license_content j \<le> corpus_score e license_content i)
            \<and> (\<forall>j<i. corpus_score e license_content j < corpus_score e license_content i)
            \<and> get_license_type e w path_license dflt =
                Inr (if dflt \<noteq> None \<and> dflt \<noteq> Some [] \<and> corpus_score e license_content i < 76
                     then dflt
                     else Some (fst (get_all_licenses e ! i)))))"
proof (intro conjI impI)
  assume "get_all_licenses e = []"
  with assms show "get_license_type e w path_license dflt = Inl TypeError"
    by (rule get_license_type_empty_corpus)
next
  assume corpus: "get_all_licenses e \<noteq> []"
  have tr: "truthy dflt \<longleftrightarrow> dflt \<noteq> None \<and> dflt \<noteq> Some []"
    by (cases dflt) (simp_all add: truthy_def)
  let ?all = "get_all_licenses e"
  let ?texts = "map snd ?all"
  let ?f = "token_sort_score e license_content"
  from corpus have ne: "?texts \<noteq> []" by simp
  from extractOne_first_max [OF ne, of "token_sort_score e" license_content]
  obtain i where i: "i < length ?texts"
    and ex: "extractOne (token_sort_score e) license_content ?texts = Some (?texts ! i, ?f (?texts ! i))"
    and mx: "\<forall>j<length ?texts. ?f (?texts ! j) \<le> ?f (?texts ! i)"
    and fst: "\<forall>j<i. ?f (?texts ! j) < ?f (?texts ! i)"
    by blast
  from i have "?texts ! i \<in> set ?texts" by (rule nth_mem)
  from py_index_first [OF this] obtain m where m: "m < length ?texts"
    "py_index ?texts (?texts ! i) = Inr m" "?texts ! m = ?texts ! i"
    "\<forall>j<m. ?texts ! j \<noteq> ?texts ! i" by blast
  have "m = i"
  proof (rule ccontr)
    assume "m \<noteq> i"
    then consider "m < i" | "i < m" by linarith
    then show False
    proof cases
      case 1
      with fst have "?f (?texts ! m) < ?f (?texts ! i)" by blast
      with m(3) show False by simp
    next
      case 2
      with m(4) show False by blast
    qed
  qed
  with m have idx: "py_index ?texts (?texts ! i) = Inr i" by simp
  have sc: "corpus_score e license_content j = ?f (?texts ! j)" if "j < length ?all" for j
    using that by (simp add: corpus_score_def)
  have "get_license_type e w path_license dflt =
             Inr (if truthy dflt \<and> corpus_score e license_content i < 76
                  then dflt
                  else Some (fst (get_all_licenses e ! i)))"
    using assms ex idx i
    by (simp add: get_license_type_def Let_def corpus_score_def)
  then have res: "get_license_type e w path_license dflt =
             Inr (if dflt \<noteq> None \<and> dflt \<noteq> Some [] \<and> corpus_score e license_content i < 76
                  then dflt
                  else Some (fst (get_all_licenses e ! i)))"
    by (simp add: tr)
  from i mx fst res
  show "\<exists>i<length (get_all_licenses e).
              (\<forall>j<length (get_all_licenses e).
                  corpus_score e license_content j \<le> corpus_score e license_content i)
            \<and> (\<forall>j<i. corpus_score e license_content j < corpus_score e license_content i)
            \<and> get_license_type e w path_license dflt =
                Inr (if dflt \<noteq> None \<and> dflt \<noteq> Some [] \<and> corpus_score e license_content i < 76
                     then dflt
                     else Some (fst (get_all_licenses e ! i)))"
    by (intro exI [of _ i]) (auto simp: sc)
qed

theorem get_license_type_best_match_witness:
  "open_read sample_world ''/src/unpacked/pkg-1.0/COPYING'' = Inr ''All rights reserved''
   \<and> get_all_licenses sample_env \<noteq> []
   \<and> get_license_type sample_env sample_world ''/src/unpacked/pkg-1.0/COPYING'' (Some ''Other'')
       = Inr (Some ''Other'')
   \<and> get_license_type sample_env sample_world ''/src/unpacked/pkg-1.0/COPYING'' None
       = Inr (Some ''Apache-2.0'')
   \<and> get_license_type (sample_env\<lparr>get_all_licenses := []\<rparr>) sample_world
         ''/src/unpacked/pkg-1.0/COPYING'' None = Inl TypeError"
proof -
  let ?p = "''/src/unpacked/pkg-1.0/COPYING''"
  let ?c = "''All rights reserved''"
  have a: "open_read sample_world ?p = Inr ?c"
    by code_simp
  have b: "get_all_licenses sample_env \<noteq> []"
    by (simp add: sample_env_def)
  have len: "length (get_all_licenses sample_env) = 2"
    by (simp add: sample_env_def)
  have zero: "corpus_score sample_env ?c j = 0" if "j < 2" for j
  proof -
    from that consider "j = 0" | "j = 1" by linarith
    then show ?thesis
      by cases (simp_all add: corpus_score_def sample_env_def mit_text_def)
  qed
  from get_license_type_best_match [OF a, of sample_env "Some ''Other''"] b len zero
  have r1: "get_license_type sample_env sample_world ?p (Some ''Other'') = Inr (Some ''Other'')"
    by auto
  from get_license_type_best_match [OF a, of sample_env None] b obtain i where i: "i < 2"
    "\<forall>j<i. corpus_score sample_env ?c j < corpus_score sample_env ?c i"
    "get_license_type sample_env sample_world ?p None = Inr (Some (fst (get_all_licenses sample_env ! i)))"
    by (auto simp: len)
  have "i = 0"
  proof (rule ccontr)
    assume "i \<noteq> 0"
    with i(2) have "corpus_score sample_env ?c 0 < corpus_score sample_env ?c i" by simp
    with zero [OF i(1)] show False by simp
  qed
  with i(3) have r2: "get_license_type sample_env sample_world ?p None = Inr (Some ''Apache-2.0'')"
    by (simp add: sample_env_def)
  have "get_all_licenses (sample_env\<lparr>get_all_licenses := []\<rparr>) = []"
    by simp
  with get_license_type_best_match [OF a, of "sample_env\<lparr>get_all_licenses := []\<rparr>" None]
  have r3: "get_license_type (sample_env\<lparr>get_all_licenses := []\<rparr>) sample_world ?p None
              = Inl TypeError"
    by blast
  from a b r1 r2 r3 show ?thesis by simp
qed

subsection \<open>C2: the cache of the host API client\<close>

text \<open>
  C2 says that the fetch is memoized by the pair of URL and revision, that a pair is
  requested from the network at most once, and that the cache is never invalidated. The
  decorator is \<open>lru_cache(maxsize=13)\<close>: the key is the call as it is written, with its
  third argument and without the defaults of the arguments left out, and the cache keeps
  the thirteen keys used last. On the sample host one pair of URL and revision is requested
  twice when the default differs, twice when the same three values are written once in
  full and once with the defaults left out, or once by position and once by keyword, and a
  call is requested again once thirteen others have gone through the cache.
\<close>

theorem cache_pair_counterexample:
  "requests_log (api_calls sample_env sample_world
       [([Some ''https://github.com/org/other'', None, None], []),
        ([Some ''https://github.com/org/other'', None, Some ''MIT''], [])]) =
     [''https://api.github.com/repos/org/other/license'',
      ''https://api.github.com/repos/org/other/license'']
   \<and> bind_args ([Some ''https://github.com/org/other''], []) =
       bind_args ([Some ''https://github.com/org/other'', None, Some ''Other''], [])
   \<and> requests_log (api_calls sample_env sample_world
       [([Some ''https://github.com/org/other''], []),
        ([Some ''https://github.com/org/other'', None, Some ''Other''], [])]) =
     [''https://api.github.com/repos/org/other/license'',
      ''https://api.github.com/repos/org/other/license'']
   \<and> bind_args ([Some ''https://github.com/org/other'', None], []) =
       bind_args ([Some ''https://github.com/org/other''], [(''version'', None)])
   \<and> requests_log (api_calls sample_env sample_world
       [([Some ''https://github.com/org/other'', None], []),
        ([Some ''https://github.com/org/other''], [(''version'', None)])]) =
     [''https://api.github.com/repos/org/other/license'',
      ''https://api.github.com/repos/org/other/license'']
   \<and> length thirteen_keys = 13 \<and> distinct thirteen_keys
   \<and> count_list (requests_log (api_calls sample_env sample_world
                     (([Some ''https://github.com/org/other''], []) # thirteen_keys
                      @ [([Some ''https://github.com/org/other''], [])])))
         ''https://api.github.com/repos/org/other/license'' = 2"
  by code_simp

text \<open>
  C2 as amended: the fetch is memoized by the arguments of the call as they are written
  (the positional arguments in order, then the keyword arguments in order, without the
  defaults of those left out). Once a call has returned, a later call written with the
  same arguments is served from the cache, with the same result, no request to the
  network and nothing else changed but the order of the cache, provided the calls in
  between were written in at most twelve other ways. A call that raises leaves the cache
  as it was.
\<close>

theorem lru_cache_served:
  "(search_license_api_github e w call = (Inr r, w1) \<and> card (set ks - {call}) < maxsize
      \<longrightarrow> search_license_api_github e (api_calls e w1 ks) call =
            (Inr r, (api_calls e w1 ks)\<lparr>lru := (call, r)
                # filter (\<lambda>kv. fst kv \<noteq> call) (lru (api_calls e w1 ks))\<rparr>))
   \<and> (fst (search_license_api_github e w call) = Inl err
      \<longrightarrow> lru (snd (search_license_api_github e w call)) = lru w)"
proof (intro conjI impI)
  assume "search_license_api_github e w call = (Inr r, w1) \<and> card (set ks - {call}) < maxsize"
  then have ret: "search_license_api_github e w call = (Inr r, w1)"
    and few: "card (set ks - {call}) < maxsize"
    by blast+
  from after_return [OF ret] obtain post where "lru w1 = [] @ (call, r) # post"
    by auto
  from calls_keep [OF this, of "{}" ks e] few obtain pre' post' where
    "lru (api_calls e w1 ks) = pre' @ (call, r) # post'" "call \<notin> fst ` set pre'"
    by auto
  from map_of_behind [OF this]
  show "search_license_api_github e (api_calls e w1 ks) call =
            (Inr r, (api_calls e w1 ks)\<lparr>lru := (call, r)
                # filter (\<lambda>kv. fst kv \<noteq> call) (lru (api_calls e w1 ks))\<rparr>)"
    by (rule cache_hit)
next
  assume raised: "fst (search_license_api_github e w call) = Inl err"
  show "lru (snd (search_license_api_github e w call)) = lru w"
  proof (cases "map_of (lru w) call")
    case (Some r')
    with raised show ?thesis
      by (simp add: cache_hit)
  next
    case None
    obtain res w2 where body: "call_wrapped e w call = (res, w2)"
      by (cases "call_wrapped e w call")
    have "lru w2 = lru w"
      using call_wrapped_lru [of e w call] body by simp
    with raised body show ?thesis
      unfolding cache_miss [OF None] by (cases res) simp_all
  qed
qed

theorem lru_cache_served_witness:
  "fst (search_license_api_github sample_env sample_world ([Some ''https://github.com/org/other''], []))
     = Inr None
   \<and> card (set [([Some ''https://github.com/org/repo''], []),
                 ([Some ''https://github.com/org/other''], []),
                 ([Some ''https://github.com/org/repo'', None], [])]
            - {([Some ''https://github.com/org/other''], []) :: cache_key}) < maxsize
   \<and> fst (search_license_api_github sample_env
            (api_calls sample_env
               (snd (search_license_api_github sample_env sample_world
                       ([Some ''https://github.com/org/other''], [])))
               [([Some ''https://github.com/org/repo''], []),
                ([Some ''https://github.com/org/other''], []),
                ([Some ''https://github.com/org/repo'', None], [])])
            ([Some ''https://github.com/org/other''], [])) = Inr None
   \<and> requests_log (snd (search_license_api_github sample_env
            (api_calls sample_env
               (snd (search_license_api_github sample_env sample_world
                       ([Some ''https://github.com/org/other''], [])))
               [([Some ''https://github.com/org/repo''], []),
                ([Some ''https://github.com/org/other''], []),
                ([Some ''https://github.com/org/repo'', None], [])])
            ([Some ''https://github.com/org/other''], [])))
       = requests_log (api_calls sample_env
               (snd (search_license_api_github sample_env sample_world
                       ([Some ''https://github.com/org/other''], [])))
               [([Some ''https://github.com/org/repo''], []),
                ([Some ''https://github.com/org/other''], []),
                ([Some ''https://github.com/org/repo'', None], [])])
   \<and> fst (search_license_api_github sample_env sample_world
            ([Some ''https://github.com/org/unknown''], [])) = Inl AttributeError
   \<and> lru (snd (search_license_api_github sample_env sample_world
            ([Some ''https://github.com/org/unknown''], []))) = lru sample_world
   \<and> fst (search_license_api_github sample_env sample_world
            ([Some ''https://github.com/org/other''], [(''revision'', None)])) = Inl TypeError"
proof -
  let ?c = "([Some ''https://github.com/org/other''], []) :: cache_key"
  let ?x = "([Some ''https://github.com/org/unknown''], []) :: cache_key"
  let ?ks = "[([Some ''https://github.com/org/repo''], []), ?c,
              ([Some ''https://github.com/org/repo'', None], [])] :: cache_key list"
  let ?w1 = "snd (search_license_api_github sample_env sample_world ?c)"
  have f: "fst (search_license_api_github sample_env sample_world ?c) = Inr None"
    by code_simp
  then have a: "search_license_api_github sample_env sample_world ?c = (Inr None, ?w1)"
    by (metis prod.collapse)
  have b: "card (set ?ks - {?c}) < maxsize"
    by code_simp
  have x: "fst (search_license_api_github sample_env sample_world ?x) = Inl AttributeError"
    by code_simp
  have y: "fst (search_license_api_github sample_env sample_world
            ([Some ''https://github.com/org/other''], [(''revision'', None)])) = Inl TypeError"
    by code_simp
  note served = lru_cache_served [where e = sample_env and w = sample_world and call = ?c
      and r = None and ?w1.0 = ?w1 and ks = ?ks, THEN conjunct1, rule_format, OF conjI [OF a b]]
  note raised = lru_cache_served [where e = sample_env and w = sample_world and call = ?x
      and err = AttributeError, THEN conjunct2, rule_format, OF x]
  have g: "fst (search_license_api_github sample_env (api_calls sample_env ?w1 ?ks) ?c) = Inr None"
    by (simp only: served fst_conv)
  have h: "requests_log (snd (search_license_api_github sample_env (api_calls sample_env ?w1 ?ks) ?c))
             = requests_log (api_calls sample_env ?w1 ?ks)"
    by (simp only: served snd_conv) simp
  from f b g h x raised y show ?thesis
    by (intro conjI)
qed

subsection \<open>C3: the name looked up by \<open>match_license\<close>\<close>

text \<open>
  C3 says that \<open>match_license\<close> removes the word "License" from the name without regard to
  case, so that "MIT license" and "MIT License" both become "MIT". The source passes
  \<open>re.IGNORECASE\<close> as the fourth positional argument of \<open>re.sub\<close>, where it is the count
  of replacements: the match is case-sensitive and at most two occurrences are removed.
  "MIT license" is looked up unchanged; with the flag in its place it would become "MIT".
\<close>

theorem match_license_name_case_sensitive:
  "match_license_name ''MIT license'' = ''MIT license''
   \<and> match_license_name ''MIT License'' = ''MIT''
   \<and> re_sub_License (strip ''MIT license'') 0 re_IGNORECASE = ''MIT''"
  by code_simp

subsection \<open>C4: the file names the scanner accepts\<close>

text \<open>
  C4 says that the file-name test is a whole-word match, without regard to case and anchored
  at the start of the name, of "copyright", "license"/"licenses", "copying" or "copyleft".
  The pattern of the source is \<^verbatim>\<open>\blicense[s]*\b\<close>: after "license" it takes any number of
  \<open>s\<close>, so that "LICENSESS.txt" is accepted, which starts with none of the five words as a
  whole word.
\<close>

theorem licensess_counterexample:
  "re_search_match ''LICENSESS.txt''
   \<and> \<not> spec_re_search_match ''LICENSESS.txt''
   \<and> \<not> whole_word_at_start ''license'' ''LICENSESS.txt''
   \<and> \<not> whole_word_at_start ''licenses'' ''LICENSESS.txt''
   \<and> whole_word_at_start ''licensess'' ''LICENSESS.txt''"
  by code_simp

text \<open>
  C4 as amended: a file name of ASCII characters is accepted exactly when it starts, without
  regard to case, with "copyright", with "license" followed by any number of \<open>s\<close>, with
  "copying" or with "copyleft", and the word ends there: the name ends, or its next
  character is not a letter, a digit or an underscore. "LICENSE", "License.md", "COPYING",
  "copyright.txt", "LICENSE.txt" and "LICENSE-MIT" are accepted; "publicity.txt" and
  "licensed-premises.txt" are not.
\<close>

theorem re_search_match_rule:
  "((\<forall>c\<in>set f. is_ascii c) \<longrightarrow>
      (re_search_match f \<longleftrightarrow>
         whole_word_at_start ''copyright'' f
         \<or> (\<exists>n. whole_word_at_start (''license'' @ replicate n CHR ''s'') f)
         \<or> whole_word_at_start ''copying'' f
         \<or> whole_word_at_start ''copyleft'' f))
   \<and> re_search_match ''LICENSE'' \<and> re_search_match ''License.md''
   \<and> re_search_match ''COPYING'' \<and> re_search_match ''copyright.txt''
   \<and> re_search_match ''LICENSE.txt'' \<and> re_search_match ''LICENSE-MIT''
   \<and> \<not> re_search_match ''publicity.txt'' \<and> \<not> re_search_match ''licensed-premises.txt''"
proof -
  have gen: "re_search_match f \<longleftrightarrow>
         whole_word_at_start ''copyright'' f
         \<or> (\<exists>n. whole_word_at_start (''license'' @ replicate n CHR ''s'') f)
         \<or> whole_word_at_start ''copying'' f
         \<or> whole_word_at_start ''copyleft'' f"
    unfolding re_search_match_iff word_run [of "''license''" f]
    by (simp only: whole_word_at_start_iff bex_simps insert_iff empty_iff) blast
  have ex: "re_search_match ''LICENSE'' \<and> re_search_match ''License.md''
   \<and> re_search_match ''COPYING'' \<and> re_search_match ''copyright.txt''
   \<and> re_search_match ''LICENSE.txt'' \<and> re_search_match ''LICENSE-MIT''
   \<and> \<not> re_search_match ''publicity.txt'' \<and> \<not> re_search_match ''licensed-premises.txt''"
    by code_simp
  from gen ex show ?thesis by blast
qed

theorem re_search_match_rule_witness:
  "list_all is_ascii ''LICENSES-MIT''
   \<and> whole_word_at_start (''license'' @ replicate 1 CHR ''s'') ''LICENSES-MIT''
   \<and> re_search_match ''LICENSES-MIT''"
proof -
  have a: "\<forall>c\<in>set ''LICENSES-MIT''. is_ascii c"
    by code_simp
  have b: "whole_word_at_start (''license'' @ replicate 1 CHR ''s'') ''LICENSES-MIT''"
    by code_simp
  from re_search_match_rule [of "''LICENSES-MIT''"] a b
  have "re_search_match ''LICENSES-MIT''"
    by blast
  with a b show ?thesis
    by (simp only: list_all_iff simp_thms)
qed

subsection \<open>C5: the location of a packaged license\<close>




subsection \<open>C6: a clone that fails gives no result\<close>

text \<open>
  C6: for every URL and revision, when the clone fails, whatever exception
  \<open>check_output\<close> raises (a bad URL, an unreachable host, a missing revision, no git binary),
  \<open>search_license_repo\<close> returns \<open>None\<close> and raises nothing. The temporary directory is made
  before the \<open>try\<close>; the statement is about calls that got one.
\<close>

theorem clone_failure_yields_none:
  assumes "mkdtemp e ''gs-clone-repo-'' w = (Inr tmp_dir, w1)"
      and "run_git e (get_git_cmd (clone_url git_url) version tmp_dir) = Inl err"
  shows "search_license_repo e w git_url version dflt = (Inr None, w1)"
  using assms by (simp add: search_license_repo_def check_output_def)

theorem clone_failure_yields_none_witness:
  "mkdtemp sample_env ''gs-clone-repo-'' sample_world =
     (Inr ''/tmp/gs-clone-repo-k3x9q2ab'',
      sample_world\<lparr>roots := roots sample_world @ [(''/tmp/gs-clone-repo-k3x9q2ab'', [])],
                    tmp_names := [''p0s7w1cd'', ''z8m4t6ef'']\<rparr>)
   \<and> run_git sample_env (get_git_cmd (clone_url ''https://github.com/org/repo/'') (Some ''v1.0'')
                           ''/tmp/gs-clone-repo-k3x9q2ab'') = Inl (OtherError ''CalledProcessError'')
   \<and> search_license_repo sample_env sample_world ''https://github.com/org/repo/'' (Some ''v1.0'') None =
       (Inr None,
        sample_world\<lparr>roots := roots sample_world @ [(''/tmp/gs-clone-repo-k3x9q2ab'', [])],
                      tmp_names := [''p0s7w1cd'', ''z8m4t6ef'']\<rparr>)"
proof -
  have a: "mkdtemp sample_env ''gs-clone-repo-'' sample_world =
     (Inr ''/tmp/gs-clone-repo-k3x9q2ab'',
      sample_world\<lparr>roots := roots sample_world @ [(''/tmp/gs-clone-repo-k3x9q2ab'', [])],
                    tmp_names := [''p0s7w1cd'', ''z8m4t6ef'']\<rparr>)"
    by (simp add: mkdtemp_def Let_def sample_env_def sample_world_def path_join_def
                  startswith_def endswith_def)
  have b: "run_git sample_env (get_git_cmd (clone_url ''https://github.com/org/repo/'') (Some ''v1.0'')
                           ''/tmp/gs-clone-repo-k3x9q2ab'') = Inl (OtherError ''CalledProcessError'')"
    by (simp add: sample_env_def)
  from clone_failure_yields_none [OF a b] a b show ?thesis
    by simp
qed

subsection \<open>C7: a status other than 200\<close>

text \<open>
  C7: when the host answers the request with a status code that is not 200,
  \<open>search_license_api_github\<close> returns \<open>None\<close>; the log of requests grows by the one request
  to the API URL, and the code is not looked at further. The call is one that reaches the
  network: its arguments, however they are written, give the URL, the revision and the
  default, and they are not in the cache.
\<close>

theorem non_200_yields_none:
  assumes "map_of (lru w) call = None"
      and "bind_args call = Inr (Some github_url, version, dflt)"
      and "get_api_github_url github_url version = Inr api_url"
      and "requests_get e api_url = Inr resp"
      and "status_code resp \<noteq> 200"
  shows "search_license_api_github e w call =
           (Inr None, w\<lparr>requests_log := requests_log w @ [api_url],
                         lru := take maxsize ((call, None) # lru w)\<rparr>)"
  using assms(1) wrapped_non_200 [OF assms(3-5)]
  by (simp add: search_license_api_github_def call_wrapped_bound [OF assms(2)])

theorem non_200_yields_none_witness:
  "map_of (lru sample_world) ([Some ''https://github.com/org/other'', None, None], []) = None
   \<and> bind_args ([Some ''https://github.com/org/other'', None, None], []) =
        Inr (Some ''https://github.com/org/other'', None, None)
   \<and> get_api_github_url ''https://github.com/org/other'' None =
        Inr ''https://api.github.com/repos/org/other/license''
   \<and> requests_get sample_env ''https://api.github.com/repos/org/other/license'' =
        Inr \<lparr>status_code = 404, json = Inl ValueError\<rparr>
   \<and> fst (search_license_api_github sample_env sample_world
            ([Some ''https://github.com/org/other'', None, None], [])) = Inr None
   \<and> requests_log (snd (search_license_api_github sample_env sample_world
                          ([Some ''https://github.com/org/other'', None, None], []))) =
        [''https://api.github.com/repos/org/other/license'']"
proof -
  have a: "map_of (lru sample_world) ([Some ''https://github.com/org/other'', None, None], []) = None"
    by (simp add: sample_world_def)
  have p: "bind_args ([Some ''https://github.com/org/other'', None, None], []) =
        Inr (Some ''https://github.com/org/other'', None, None)"
    by (rule bind_args_positional)
  have b: "get_api_github_url ''https://github.com/org/other'' None =
        Inr ''https://api.github.com/repos/org/other/license''"
    by code_simp
  have c: "requests_get sample_env ''https://api.github.com/repos/org/other/license'' =
        Inr \<lparr>status_code = 404, json = Inl ValueError\<rparr>"
    by (simp add: sample_env_def)
  have d: "status_code \<lparr>status_code = 404, json = Inl ValueError\<rparr> \<noteq> 200"
    by simp
  from non_200_yields_none [OF a p b c d] a p b c show ?thesis
    by (simp add: sample_world_def)
qed

subsection \<open>C8: the URLs of the two remote paths\<close>

text \<open>
  C8 says that "?ref=" and the revision are appended exactly when a revision is given, and
  that the clone URL is made by replacing a trailing slash by ".git", else by appending
  ".git" if it is not there. The source tests \<open>if version\<close>, so a revision that is the
  empty string adds nothing; and it replaces with the pattern \<open>/$\<close>, whose \<open>$\<close> also
  matches before a newline that ends the URL, so that a URL ending with a slash and a
  newline loses the slash and then gets a second ".git" after the newline.
\<close>

theorem url_rule_counterexample:
  "get_api_github_url ''https://github.com/org/repo'' (Some [])
     = Inr ''https://api.github.com/repos/org/repo/license''
   \<and> spec_api_url ''https://api.github.com/repos/org/repo/license'' (Some [])
     = ''https://api.github.com/repos/org/repo/license?ref=''
   \<and> clone_url (''https://github.com/org/repo/'' @ [NL])
     = ''https://github.com/org/repo.git'' @ [NL] @ ''.git''
   \<and> spec_clone_url (''https://github.com/org/repo/'' @ [NL])
     = ''https://github.com/org/repo/'' @ [NL] @ ''.git''
   \<and> clone_url (''https://github.com/org/repo/'' @ [NL])
     \<noteq> spec_clone_url (''https://github.com/org/repo/'' @ [NL])"
  by code_simp

text \<open>
  C8 as amended: "https://github.com/org/repo" becomes the request URL
  "https://api.github.com/repos/org/repo/license", followed by "?ref=" and the revision
  exactly when the revision is given and is not the empty string; the clone URL of
  "https://github.com/org/repo/" is "https://github.com/org/repo.git"; and for every URL,
  a slash that ends it is replaced by ".git"; a slash before a newline that ends it is
  replaced by ".git" and ".git" is appended after the newline; any other URL is kept if
  it ends with ".git" and gets ".git" appended if not.
\<close>

theorem url_normalization:
  "get_api_github_url ''https://github.com/org/repo'' version =
     Inr (''https://api.github.com/repos/org/repo/license''
          @ (case version of None \<Rightarrow> [] | Some v \<Rightarrow> if v = [] then [] else ''?ref='' @ v))
   \<and> clone_url ''https://github.com/org/repo/'' = ''https://github.com/org/repo.git''
   \<and> clone_url u =
       (if endswith u ''/'' then butlast u @ ''.git''
        else if endswith u [CHR ''/'', NL] then take (length u - 2) u @ ''.git'' @ [NL] @ ''.git''
        else if endswith u ''.git'' then u
        else u @ ''.git'')"
proof (intro conjI)
  have base: "get_api_github_url ''https://github.com/org/repo'' None =
      Inr ''https://api.github.com/repos/org/repo/license''"
    by code_simp
  show "get_api_github_url ''https://github.com/org/repo'' version =
     Inr (''https://api.github.com/repos/org/repo/license''
          @ (case version of None \<Rightarrow> [] | Some v \<Rightarrow> if v = [] then [] else ''?ref='' @ v))"
  proof (cases version)
    case None
    with base show ?thesis by simp
  next
    case (Some v)
    then show ?thesis
      unfolding Some get_api_github_url_ref base by simp
  qed
next
  show "clone_url ''https://github.com/org/repo/'' = ''https://github.com/org/repo.git''"
    by code_simp
next
  show "clone_url u =
       (if endswith u ''/'' then butlast u @ ''.git''
        else if endswith u [CHR ''/'', NL] then take (length u - 2) u @ ''.git'' @ [NL] @ ''.git''
        else if endswith u ''.git'' then u
        else u @ ''.git'')"
    by (rule clone_url_cases)
qed

theorem url_normalization_witness:
  "get_api_github_url ''https://github.com/org/repo'' (Some ''v1.0'') =
     Inr ''https://api.github.com/repos/org/repo/license?ref=v1.0''
   \<and> clone_url ''https://github.com/org/repo/'' = ''https://github.com/org/repo.git''
   \<and> clone_url ''https://github.com/org/repo'' = ''https://github.com/org/repo.git''
   \<and> clone_url ''https://github.com/org/repo.git'' = ''https://github.com/org/repo.git''"
proof -
  have a: "\<not> endswith ''https://github.com/org/repo'' ''/''"
          "\<not> endswith ''https://github.com/org/repo'' [CHR ''/'', NL]"
          "\<not> endswith ''https://github.com/org/repo'' ''.git''"
    by code_simp+
  have b: "\<not> endswith ''https://github.com/org/repo.git'' ''/''"
          "\<not> endswith ''https://github.com/org/repo.git'' [CHR ''/'', NL]"
          "endswith ''https://github.com/org/repo.git'' ''.git''"
    by code_simp+
  from url_normalization [of "Some ''v1.0''" "''https://github.com/org/repo''"]
       url_normalization [of "Some ''v1.0''" "''https://github.com/org/repo.git''"] a b
  show ?thesis by simp
qed

subsection \<open>C9: the name taken from a 200 response\<close>

text \<open>
  C9: in a 200 response whose body is usable (a \<open>content\<close> that decodes, a temporary
  directory to write it to), the name of the result is the caller's default exactly when
  the body has no \<open>license\<close> key or the object under it has no \<open>spdx_id\<close>; an object with
  \<open>spdx_id\<close> gives that value; and a \<open>license\<close> that is null, or anything else that is no
  object, makes the call raise \<open>AttributeError\<close> instead of returning the default. The call
  is one that reaches the network: its arguments, however they are written, give the URL,
  the revision and the default, and they are not in the cache.
\<close>

theorem spdx_id_or_default:
  assumes "map_of (lru w) call = None"
    and "bind_args call = Inr (Some github_url, version, dflt)"
    and "get_api_github_url github_url version = Inr api_url"
    and "requests_get e api_url = Inr resp" and "status_code resp = 200"
    and "json resp = Inr (PDict kvs)"
    and "map_of kvs ''content'' = Some (PStr c)" and "b64decode_utf8 e c = Inr text"
    and "mkdtemp e ''github-license-'' (w\<lparr>requests_log := requests_log w @ [api_url]\<rparr>)
           = (Inr tmp_dir, w2)"
  shows "fst (search_license_api_github e w call) =
     (case map_of kvs ''license'' of
        None \<Rightarrow> Inr (Some \<lparr>name = of_optional dflt, path = path_join tmp_dir ''LICENSE'',
                             is_packaged = False\<rparr>)
      | Some (PDict obj) \<Rightarrow>
          Inr (Some \<lparr>name = (case map_of obj ''spdx_id'' of None \<Rightarrow> of_optional dflt | Some x \<Rightarrow> x),
                      path = path_join tmp_dir ''LICENSE'', is_packaged = False\<rparr>)
      | Some other \<Rightarrow> Inl AttributeError)"
  unfolding miss_fst [OF assms(1,2)] by (rule wrapped_200 [OF assms(3-9)])

theorem spdx_id_or_default_witness:
  "map_of (lru sample_world) ([Some ''https://github.com/org/unknown''], []) = None
   \<and> bind_args ([Some ''https://github.com/org/unknown''], []) =
        Inr (Some ''https://github.com/org/unknown'', None, Some ''Other'')
   \<and> get_api_github_url ''https://github.com/org/unknown'' None =
        Inr ''https://api.github.com/repos/org/unknown/license''
   \<and> requests_get sample_env ''https://api.github.com/repos/org/unknown/license'' =
        Inr \<lparr>status_code = 200,
             json = Inr (PDict [(''content'', PStr ''TUlU''), (''license'', PNone)])\<rparr>
   \<and> b64decode_utf8 sample_env ''TUlU'' = Inr ''MIT''
   \<and> fst (mkdtemp sample_env ''github-license-''
            (sample_world\<lparr>requests_log := requests_log sample_world
                              @ [''https://api.github.com/repos/org/unknown/license'']\<rparr>))
        = Inr ''/tmp/github-license-k3x9q2ab''
   \<and> fst (search_license_api_github sample_env sample_world
            ([Some ''https://github.com/org/unknown''], [])) = Inl AttributeError"
proof -
  let ?w = "sample_world\<lparr>requests_log := requests_log sample_world
                              @ [''https://api.github.com/repos/org/unknown/license'']\<rparr>"
  have a: "map_of (lru sample_world) ([Some ''https://github.com/org/unknown''], []) = None"
    by (simp add: sample_world_def)
  have p: "bind_args ([Some ''https://github.com/org/unknown''], []) =
        Inr (Some ''https://github.com/org/unknown'', None, Some ''Other'')"
    by code_simp
  have b: "get_api_github_url ''https://github.com/org/unknown'' None =
        Inr ''https://api.github.com/repos/org/unknown/license''"
    by code_simp
  have c: "requests_get sample_env ''https://api.github.com/repos/org/unknown/license'' =
        Inr \<lparr>status_code = 200,
             json = Inr (PDict [(''content'', PStr ''TUlU''), (''license'', PNone)])\<rparr>"
    by (simp add: sample_env_def)
  have d: "b64decode_utf8 sample_env ''TUlU'' = Inr ''MIT''"
    by (simp add: sample_env_def)
  have f: "fst (mkdtemp sample_env ''github-license-'' ?w) = Inr ''/tmp/github-license-k3x9q2ab''"
    by (simp add: mkdtemp_def Let_def sample_env_def sample_world_def path_join_def
                  startswith_def endswith_def)
  then have g: "mkdtemp sample_env ''github-license-'' ?w =
      (Inr ''/tmp/github-license-k3x9q2ab'', snd (mkdtemp sample_env ''github-license-'' ?w))"
    by (metis prod.collapse)
  from spdx_id_or_default [OF a p b c _ _ _ d g,
      of "[(''content'', PStr ''TUlU''), (''license'', PNone)]"]
  have "fst (search_license_api_github sample_env sample_world
            ([Some ''https://github.com/org/unknown''], [])) = Inl AttributeError"
    by simp
  with a p b c d f show ?thesis
    by simp
qed

subsection \<open>C10: the temporary directory of the clone\<close>

text \<open>
  C10: a call of \<open>search_license_repo\<close> makes a new directory named with the prefix
  "gs-clone-repo-" under the directory of temporary files, a path that did not exist before,
  and makes it before git runs: the directory is there, empty, in the world git starts
  from. It is still there when the call ends, and when the clone fails the call returns
  \<open>None\<close> in exactly that world, the empty directory left behind. (A free candidate name
  is what \<open>mkdtemp\<close> needs to succeed.)
\<close>

theorem clone_tmp_dir_left_behind:
  assumes "n \<in> set (tmp_names w)"
    and "path_join (gettempdir e) (''gs-clone-repo-'' @ n) \<notin> fst ` set (roots w)"
  shows "\<exists>tmp_dir w1.
           mkdtemp e ''gs-clone-repo-'' w = (Inr tmp_dir, w1)
           \<and> tmp_dir \<notin> fst ` set (roots w)
           \<and> (\<exists>m \<in> set (tmp_names w). tmp_dir = path_join (gettempdir e) (''gs-clone-repo-'' @ m))
           \<and> map_of (roots w1) tmp_dir = Some []
           \<and> tmp_dir \<in> fst ` set (roots (snd (search_license_repo e w git_url version dflt)))
           \<and> (\<forall>err. run_git e (get_git_cmd (clone_url git_url) version tmp_dir) = Inl err
                  \<longrightarrow> search_license_repo e w git_url version dflt = (Inr None, w1))"
proof -
  from mkdtemp_succeeds [OF assms] obtain tmp_dir w1
    where mk: "mkdtemp e ''gs-clone-repo-'' w = (Inr tmp_dir, w1)" by blast
  note facts = mkdtemp_Inr [OF mk]
  have in_w1: "tmp_dir \<in> fst ` set (roots w1)"
    by (simp add: facts(3))
  have final: "tmp_dir \<in> fst ` set (roots (snd (search_license_repo e w git_url version dflt)))"
  proof -
    let ?cmd = "get_git_cmd (clone_url git_url) version tmp_dir"
    have "snd (search_license_repo e w git_url version dflt) = snd (check_output e ?cmd w1)"
      using mk by (simp add: search_license_repo_def split: prod.splits sum.splits)
    with in_w1 show ?thesis
      by (simp add: check_output_roots)
  qed
  have fails: "\<forall>err. run_git e (get_git_cmd (clone_url git_url) version tmp_dir) = Inl err
                  \<longrightarrow> search_license_repo e w git_url version dflt = (Inr None, w1)"
    using mk by (simp add: search_license_repo_def check_output_def)
  from mk facts(1,2) map_of_new_root [OF mk] final fails show ?thesis
    by blast
qed

theorem clone_tmp_dir_left_behind_witness:
  "''k3x9q2ab'' \<in> set (tmp_names sample_world)
   \<and> path_join (gettempdir sample_env) (''gs-clone-repo-'' @ ''k3x9q2ab'') \<notin> fst ` set (roots sample_world)
   \<and> (\<exists>tmp_dir w1.
         mkdtemp sample_env ''gs-clone-repo-'' sample_world = (Inr tmp_dir, w1)
         \<and> tmp_dir \<notin> fst ` set (roots sample_world)
         \<and> (\<exists>m \<in> set (tmp_names sample_world).
               tmp_dir = path_join (gettempdir sample_env) (''gs-clone-repo-'' @ m))
         \<and> map_of (roots w1) tmp_dir = Some []
         \<and> tmp_dir \<in> fst ` set (roots (snd (search_license_repo sample_env sample_world
                                               ''https://github.com/org/repo'' None None)))
         \<and> (\<forall>err. run_git sample_env
                     (get_git_cmd (clone_url ''https://github.com/org/repo'') None tmp_dir) = Inl err
                \<longrightarrow> search_license_repo sample_env sample_world ''https://github.com/org/repo'' None None
                      = (Inr None, w1)))"
proof -
  have a: "''k3x9q2ab'' \<in> set (tmp_names sample_world)"
    by (simp add: sample_world_def)
  have b: "path_join (gettempdir sample_env) (''gs-clone-repo-'' @ ''k3x9q2ab'')
             \<notin> fst ` set (roots sample_world)"
    by (simp add: sample_world_def sample_env_def path_join_def startswith_def endswith_def)
  from clone_tmp_dir_left_behind [OF a b] a b show ?thesis
    by blast
qed

end
